theory Spec2Isabelle
  imports Complex_Main
begin

section \<open>Root finding in Lab3.py: Newton-Raphson, secant and false position\<close>

text \<open>
  The three routines of \<^verbatim>\<open>Lab3.py\<close> are embedded over the real numbers: a Python float is
  read as the real it denotes, so rounding, infinities and NaN are outside the model.
  The literal \<^verbatim>\<open>1e-12\<close> is the real \<open>1 / 10 ^ 12\<close>.  What Python raises is a value:
  a float division by zero is \<open>ZeroDivisionError\<close>, and reading the local \<^verbatim>\<open>c\<close> of
  \<^verbatim>\<open>false_position\<close> before any iteration has assigned it is \<open>UnboundLocalError\<close>.
\<close>

subsection \<open>Errors, rows of the trace, results\<close>

datatype py_error = ZeroDivisionError | UnboundLocalError

definition py_div :: "real \<Rightarrow> real \<Rightarrow> py_error + real" where
  "py_div x y = (if y = 0 then Inl ZeroDivisionError else Inr (x / y))"

text \<open>
  One dictionary appended to \<^verbatim>\<open>history\<close> by \<^verbatim>\<open>newton_raphson\<close> or \<^verbatim>\<open>secant_method\<close>;
  the keys are \<^verbatim>\<open>"Iter", "Method", "x_curr", "f(x)", "Error"\<close>.
\<close>

record row =
  row_Iter :: int
  row_Method :: string
  row_x_curr :: real
  row_fx :: real
  row_Error :: real

text \<open>
  One dictionary appended by \<^verbatim>\<open>false_position\<close>; the keys are
  \<^verbatim>\<open>"Iter", "Method", "a", "b", "root", "f(x)", "Error"\<close>.
\<close>

record fp_row =
  fp_Iter :: int
  fp_Method :: string
  fp_a :: real
  fp_b :: real
  fp_root :: real
  fp_fx :: real
  fp_Error :: real

text \<open>
  A routine returns a pair: the estimate and the data frame built from \<^verbatim>\<open>history\<close>.
  Either component can be Python's \<^verbatim>\<open>None\<close>; the pair \<open>(None, None)\<close> is the
  no-result sentinel.
\<close>

type_synonym 'r result = "real option \<times> 'r list option"

subsection \<open>The loop \<^verbatim>\<open>for i in range(max_iter)\<close>\<close>

text \<open>
  A loop body maps the index and the local state to an error, to \<open>Break\<close> (the body ran
  into \<^verbatim>\<open>break\<close>) or to \<open>Continue\<close> (it ran to its end).  \<open>for_range body i n s\<close> runs the
  body for the indices \<open>i, i + 1, \<dots>\<close>, at most \<open>n\<close> times, and gives the locals on exit.
\<close>

datatype 's flow = Break 's | Continue 's

primrec for_range :: "(int \<Rightarrow> 's \<Rightarrow> py_error + 's flow) \<Rightarrow> int \<Rightarrow> nat \<Rightarrow> 's \<Rightarrow> py_error + 's" where
  "for_range body i 0 s = Inr s"
| "for_range body i (Suc n) s =
     (case body i s of
        Inl e \<Rightarrow> Inl e
      | Inr (Break s') \<Rightarrow> Inr s'
      | Inr (Continue s') \<Rightarrow> for_range body (i + 1) n s')"

text \<open>
  The locals at the head of every iteration that is entered, followed by the locals after
  the last iteration when that one ran to its end: each iteration that does not break
  takes one element of the list to the next.
\<close>

primrec for_states :: "(int \<Rightarrow> 's \<Rightarrow> py_error + 's flow) \<Rightarrow> int \<Rightarrow> nat \<Rightarrow> 's \<Rightarrow> 's list" where
  "for_states body i 0 s = [s]"
| "for_states body i (Suc n) s =
     s # (case body i s of
            Inr (Continue s') \<Rightarrow> for_states body (i + 1) n s'
          | _ \<Rightarrow> [])"

subsection \<open>\<^verbatim>\<open>newton_raphson\<close>\<close>

text \<open>The locals of the loop are \<open>(x_curr, history)\<close>.\<close>

definition newton_body ::
  "(real \<Rightarrow> real) \<Rightarrow> (real \<Rightarrow> real) \<Rightarrow> real \<Rightarrow> int \<Rightarrow> real \<times> row list
     \<Rightarrow> py_error + (real \<times> row list) flow" where
  "newton_body func deriv tol i = (\<lambda>(x_curr, history).
     let f_val = func x_curr;
         f_prime = deriv x_curr
     in if \<bar>f_prime\<bar> < 1 / 10 ^ 12 then Inr (Break (x_curr, history))
        else case py_div f_val f_prime of
          Inl e \<Rightarrow> Inl e
        | Inr q \<Rightarrow>
            let x_next = x_curr - q;
                error = \<bar>x_next - x_curr\<bar>;
                history' = history @ [\<lparr>row_Iter = i + 1, row_Method = ''Newton'',
                  row_x_curr = x_curr, row_fx = f_val, row_Error = error\<rparr>]
            in if error < tol then Inr (Break (x_next, history'))
               else Inr (Continue (x_next, history')))"

definition newton_raphson ::
  "(real \<Rightarrow> real) \<Rightarrow> (real \<Rightarrow> real) \<Rightarrow> real \<Rightarrow> real \<Rightarrow> int \<Rightarrow> py_error + row result" where
  "newton_raphson func deriv x0 tol max_iter =
     (case for_range (newton_body func deriv tol) 0 (nat max_iter) (x0, []) of
        Inl e \<Rightarrow> Inl e
      | Inr (x_curr, history) \<Rightarrow> Inr (Some x_curr, Some history))"

text \<open>
  The locals \<open>(x_curr, history)\<close> at the head of every step that \<open>newton_raphson\<close> enters,
  in order.
\<close>

definition newton_steps ::
  "(real \<Rightarrow> real) \<Rightarrow> (real \<Rightarrow> real) \<Rightarrow> real \<Rightarrow> real \<Rightarrow> int \<Rightarrow> (real \<times> row list) list" where
  "newton_steps func deriv x0 tol max_iter =
     take (nat max_iter) (for_states (newton_body func deriv tol) 0 (nat max_iter) (x0, []))"

subsection \<open>\<^verbatim>\<open>secant_method\<close>\<close>

text \<open>The locals of the loop are \<open>(x_prev, x_curr, history)\<close>.\<close>

definition secant_body ::
  "(real \<Rightarrow> real) \<Rightarrow> real \<Rightarrow> int \<Rightarrow> real \<times> real \<times> row list
     \<Rightarrow> py_error + (real \<times> real \<times> row list) flow" where
  "secant_body func tol i = (\<lambda>(x_prev, x_curr, history).
     let f_curr = func x_curr;
         f_prev = func x_prev
     in if \<bar>f_curr - f_prev\<bar> < 1 / 10 ^ 12 then Inr (Break (x_prev, x_curr, history))
        else case py_div (x_curr - x_prev) (f_curr - f_prev) of
          Inl e \<Rightarrow> Inl e
        | Inr q \<Rightarrow>
            let x_next = x_curr - f_curr * q;
                error = \<bar>x_next - x_curr\<bar>;
                history' = history @ [\<lparr>row_Iter = i + 1, row_Method = ''Secant'',
                  row_x_curr = x_curr, row_fx = f_curr, row_Error = error\<rparr>]
            in if error < tol then Inr (Break (x_curr, x_next, history'))
               else Inr (Continue (x_curr, x_next, history')))"

definition secant_method ::
  "(real \<Rightarrow> real) \<Rightarrow> real \<Rightarrow> real \<Rightarrow> real \<Rightarrow> int \<Rightarrow> py_error + row result" where
  "secant_method func x0 x1 tol max_iter =
     (case for_range (secant_body func tol) 0 (nat max_iter) (x0, x1, []) of
        Inl e \<Rightarrow> Inl e
      | Inr (x_prev, x_curr, history) \<Rightarrow> Inr (Some x_curr, Some history))"

text \<open>
  The locals \<open>(x_prev, x_curr, history)\<close> at the head of every step that \<open>secant_method\<close>
  enters, in order.
\<close>

definition secant_steps ::
  "(real \<Rightarrow> real) \<Rightarrow> real \<Rightarrow> real \<Rightarrow> real \<Rightarrow> int \<Rightarrow> (real \<times> real \<times> row list) list" where
  "secant_steps func x0 x1 tol max_iter =
     take (nat max_iter) (for_states (secant_body func tol) 0 (nat max_iter) (x0, x1, []))"

subsection \<open>\<^verbatim>\<open>false_position\<close>\<close>

text \<open>
  The locals of the loop are \<open>(a, b, c_old, c, history)\<close>; \<open>c\<close> is \<open>None\<close> until the first
  iteration assigns it.
\<close>

type_synonym fp_locals = "real \<times> real \<times> real \<times> real option \<times> fp_row list"

definition fp_body ::
  "(real \<Rightarrow> real) \<Rightarrow> real \<Rightarrow> int \<Rightarrow> fp_locals \<Rightarrow> py_error + fp_locals flow" where
  "fp_body func tol i = (\<lambda>(a, b, c_old, c_prev, history).
     let fa = func a;
         fb = func b
     in case py_div (b - a) (fb - fa) of
          Inl e \<Rightarrow> Inl e
        | Inr q \<Rightarrow>
            let c = b - fb * q;
                fc = func c;
                error = \<bar>c - c_old\<bar>;
                history' = history @ [\<lparr>fp_Iter = i + 1, fp_Method = ''FalsePos'',
                  fp_a = a, fp_b = b, fp_root = c, fp_fx = fc, fp_Error = error\<rparr>]
            in if error < tol then Inr (Break (a, b, c_old, Some c, history'))
               else if fa * fc < 0 then Inr (Continue (a, c, c, Some c, history'))
               else Inr (Continue (c, b, c, Some c, history')))"

text \<open>
  \<open>false_position_exec\<close> gives, next to the returned pair, the list \<^verbatim>\<open>history\<close> as it
  is when the function returns; \<open>false_position\<close> is the returned pair alone.
\<close>

definition false_position_exec ::
  "(real \<Rightarrow> real) \<Rightarrow> real \<Rightarrow> real \<Rightarrow> real \<Rightarrow> int \<Rightarrow> py_error + (fp_row list \<times> fp_row result)" where
  "false_position_exec func a b tol max_iter =
     (let history = [] in
      if func a * func b \<ge> 0 then Inr (history, (None, None))
      else case for_range (fp_body func tol) 0 (nat max_iter) (a, b, a, None, history) of
             Inl e \<Rightarrow> Inl e
           | Inr (a', b', c_old, c, history') \<Rightarrow>
               (case c of
                  None \<Rightarrow> Inl UnboundLocalError
                | Some c' \<Rightarrow> Inr (history', (Some c', Some history'))))"

definition false_position ::
  "(real \<Rightarrow> real) \<Rightarrow> real \<Rightarrow> real \<Rightarrow> real \<Rightarrow> int \<Rightarrow> py_error + fp_row result" where
  "false_position func a b tol max_iter =
     (case false_position_exec func a b tol max_iter of
        Inl e \<Rightarrow> Inl e
      | Inr (history, r) \<Rightarrow> Inr r)"

text \<open>
  The brackets \<open>(a, b)\<close> the loop of \<open>false_position\<close> goes through: the bracket at the
  head of every iteration entered and the bracket after every update.  There is none when
  the initial bracket is refused.
\<close>

definition fp_brackets ::
  "(real \<Rightarrow> real) \<Rightarrow> real \<Rightarrow> real \<Rightarrow> real \<Rightarrow> int \<Rightarrow> (real \<times> real) list" where
  "fp_brackets func a b tol max_iter =
     (if func a * func b \<ge> 0 then []
      else map (\<lambda>(a', b', c_old, c, history). (a', b'))
             (for_states (fp_body func tol) 0 (nat max_iter) (a, b, a, None, [])))"

subsection \<open>The first test function\<close>

text \<open>
  The function of entry \<^verbatim>\<open>"A"\<close> of \<^verbatim>\<open>functions_data\<close>, \<^verbatim>\<open>lambda x: x**5 + x - 1\<close>; the
  driver calls \<^verbatim>\<open>false_position(func, a, b)\<close> on it with \<open>a = 0.0\<close>, \<open>b = 1.0\<close> and the
  defaults \<open>tol = 1e-6\<close>, \<open>max_iter = 50\<close>.
\<close>

definition func_A :: "real \<Rightarrow> real" where
  "func_A x = x ^ 5 + x - 1"

subsection \<open>Auxiliary notions for the proofs\<close>

text \<open>
  Names for terms of the loop bodies: the rows they append, the next secant iterate and
  the zero of the chord.
\<close>

definition newton_row :: "(real \<Rightarrow> real) \<Rightarrow> (real \<Rightarrow> real) \<Rightarrow> int \<Rightarrow> real \<Rightarrow> row" where
  "newton_row func deriv i x =
     \<lparr>row_Iter = i + 1, row_Method = ''Newton'', row_x_curr = x, row_fx = func x,
      row_Error = \<bar>x - func x / deriv x - x\<bar>\<rparr>"

definition secant_next :: "(real \<Rightarrow> real) \<Rightarrow> real \<Rightarrow> real \<Rightarrow> real" where
  "secant_next func xp xc = xc - func xc * ((xc - xp) / (func xc - func xp))"

definition secant_row :: "(real \<Rightarrow> real) \<Rightarrow> int \<Rightarrow> real \<Rightarrow> real \<Rightarrow> row" where
  "secant_row func i xp xc =
     \<lparr>row_Iter = i + 1, row_Method = ''Secant'', row_x_curr = xc, row_fx = func xc,
      row_Error = \<bar>secant_next func xp xc - xc\<bar>\<rparr>"

definition fp_c :: "(real \<Rightarrow> real) \<Rightarrow> real \<Rightarrow> real \<Rightarrow> real" where
  "fp_c func a b = b - func b * ((b - a) / (func b - func a))"

definition fp_mk_row :: "(real \<Rightarrow> real) \<Rightarrow> int \<Rightarrow> real \<Rightarrow> real \<Rightarrow> real \<Rightarrow> fp_row" where
  "fp_mk_row func i a b c_old =
     \<lparr>fp_Iter = i + 1, fp_Method = ''FalsePos'', fp_a = a, fp_b = b, fp_root = fp_c func a b,
      fp_fx = func (fp_c func a b), fp_Error = \<bar>fp_c func a b - c_old\<bar>\<rparr>"

text \<open>
  The condition on the bracket that the loop of \<open>false_position\<close> keeps: a sign change, or
  an exact root at \<open>a\<close> with \<open>f(b) \<noteq> 0\<close>.  \<open>fp_c_set\<close> says that \<^verbatim>\<open>c\<close> has been assigned.
\<close>

definition fp_bracket_ok :: "(real \<Rightarrow> real) \<Rightarrow> real \<Rightarrow> real \<Rightarrow> bool" where
  "fp_bracket_ok func a b \<longleftrightarrow> func a * func b < 0 \<or> (func a = 0 \<and> func b \<noteq> 0)"

definition fp_ok :: "(real \<Rightarrow> real) \<Rightarrow> fp_locals \<Rightarrow> bool" where
  "fp_ok func = (\<lambda>(a, b, c_old, c, h). fp_bracket_ok func a b)"

definition fp_c_set :: "fp_locals \<Rightarrow> bool" where
  "fp_c_set = (\<lambda>(a, b, c_old, c, h). c \<noteq> None)"

text \<open>
  A trace stops at the first row whose error is below \<open>tol\<close>: such a row is the last one.
\<close>

definition stops_at_first :: "('r \<Rightarrow> real) \<Rightarrow> real \<Rightarrow> 'r list \<Rightarrow> bool" where
  "stops_at_first err tol h \<longleftrightarrow> (\<forall>k < length h. err (h ! k) < tol \<longrightarrow> length h = Suc k)"

text \<open>
  The bracket after the update that follows row \<open>r\<close>, and the rows written by consecutive
  steps of \<open>false_position\<close> that start from the locals \<open>(a, b, c_old)\<close> at index \<open>i\<close>.
\<close>

definition fp_update :: "(real \<Rightarrow> real) \<Rightarrow> fp_row \<Rightarrow> real \<times> real" where
  "fp_update func r =
     (if func (fp_a r) * func (fp_root r) < 0 then (fp_a r, fp_root r) else (fp_root r, fp_b r))"

fun fp_chain :: "(real \<Rightarrow> real) \<Rightarrow> real \<Rightarrow> int \<Rightarrow> real \<Rightarrow> real \<Rightarrow> real \<Rightarrow> fp_row list \<Rightarrow> bool" where
  "fp_chain func tol i a b c_old [] = True"
| "fp_chain func tol i a b c_old (r # rs) =
     (func b \<noteq> func a \<and> r = fp_mk_row func i a b c_old
      \<and> (rs \<noteq> [] \<longrightarrow> \<not> fp_Error r < tol
            \<and> fp_chain func tol (i + 1) (fst (fp_update func r)) (snd (fp_update func r)) (fp_root r) rs))"

text \<open>
  For the first test function and \<open>b = 1\<close>: \<open>f(1) - f(a) = (1 - a) * chord_E a\<close>, so the zero
  of the chord is \<open>1 - 1 / chord_E a\<close>.  \<open>is_root_A r\<close> locates a root of the function.
\<close>

definition chord_E :: "real \<Rightarrow> real" where
  "chord_E a = 2 + a + a ^ 2 + a ^ 3 + a ^ 4"

definition is_root_A :: "real \<Rightarrow> bool" where
  "is_root_A r \<longleftrightarrow> 75487765 / 10 ^ 8 < r \<and> r < 754878 / 10 ^ 6 \<and> func_A r = 0"

section \<open>Lemmas on the loop\<close>

lemma for_range_rule:
  assumes "for_range body i n s = Inr t"
    and "P s"
    and "\<And>j u v. P u \<Longrightarrow> body j u = Inr (Continue v) \<Longrightarrow> P v"
    and "\<And>j u v. P u \<Longrightarrow> body j u = Inr (Break v) \<Longrightarrow> Q v"
    and "\<And>u. P u \<Longrightarrow> Q u"
  shows "Q t"
  using assms(1,2)
proof (induction n arbitrary: i s)
  case 0
  then show ?case using assms(5) by simp
next
  case (Suc n)
  show ?case
  proof (cases "body i s")
    case (Inl e)
    with Suc.prems show ?thesis by simp
  next
    case (Inr w)
    show ?thesis
    proof (cases w)
      case (Break v)
      with Inr Suc.prems have "t = v" by simp
      with assms(4)[OF Suc.prems(2)] Inr Break show ?thesis by simp
    next
      case (Continue v)
      with Inr Suc.prems have run: "for_range body (i + 1) n v = Inr t" by simp
      from assms(3)[OF Suc.prems(2)] Inr Continue have "P v" by simp
      with Suc.IH run show ?thesis by blast
    qed
  qed
qed

lemma for_range_total:
  assumes "P s"
    and "\<And>j u v. P u \<Longrightarrow> body j u = Inr (Continue v) \<Longrightarrow> P v"
    and "\<And>j u. P u \<Longrightarrow> \<exists>w. body j u = Inr w"
  shows "\<exists>t. for_range body i n s = Inr t"
  using assms(1)
proof (induction n arbitrary: i s)
  case 0
  then show ?case by simp
next
  case (Suc n)
  from assms(3)[OF Suc.prems] obtain w where w: "body i s = Inr w" by blast
  show ?case
  proof (cases w)
    case (Break v)
    with w show ?thesis by simp
  next
    case (Continue v)
    with w assms(2)[OF Suc.prems] have "P v" by simp
    from Suc.IH[OF this] w Continue show ?thesis by simp
  qed
qed

lemma for_range_count:
  fixes m :: "'s \<Rightarrow> nat"
  assumes "for_range body i n s = Inr t"
    and "\<And>j u v. body j u = Inr (Continue v) \<Longrightarrow> m v \<le> Suc (m u)"
    and "\<And>j u v. body j u = Inr (Break v) \<Longrightarrow> m v \<le> Suc (m u)"
  shows "m t \<le> m s + n"
  using assms(1)
proof (induction n arbitrary: i s)
  case 0
  then show ?case by simp
next
  case (Suc n)
  show ?case
  proof (cases "body i s")
    case (Inl e)
    with Suc.prems show ?thesis by simp
  next
    case (Inr w)
    show ?thesis
    proof (cases w)
      case (Break v)
      with Inr Suc.prems have "t = v" by simp
      with assms(3) Inr Break have "m t \<le> Suc (m s)" by simp
      then show ?thesis by simp
    next
      case (Continue v)
      with Inr Suc.prems have "for_range body (i + 1) n v = Inr t" by simp
      from Suc.IH[OF this] have "m t \<le> m v + n" .
      moreover from assms(2) Inr Continue have "m v \<le> Suc (m s)" by simp
      ultimately show ?thesis by simp
    qed
  qed
qed


lemma for_states_head: "for_states body i n s ! 0 = s"
  by (cases n) simp_all

lemma for_states_nonempty: "for_states body i n s \<noteq> []"
  by (cases n) simp_all

lemma for_states_length: "length (for_states body i n s) \<le> Suc n"
proof (induction n arbitrary: i s)
  case 0
  then show ?case by simp
next
  case (Suc n)
  show ?case
  proof (cases "body i s")
    case (Inl e)
    then show ?thesis by simp
  next
    case (Inr w)
    with Suc.IH show ?thesis by (cases w) simp_all
  qed
qed

text \<open>
  What the iteration entered at position \<open>k\<close> of the list does to the whole run.
\<close>

lemma for_states_step:
  assumes "k < n" and "k < length (for_states body i n s)"
  shows "case body (i + int k) (for_states body i n s ! k) of
           Inl e \<Rightarrow> for_range body i n s = Inl e
         | Inr (Break v) \<Rightarrow> for_range body i n s = Inr v
         | Inr (Continue v) \<Rightarrow>
             Suc k < length (for_states body i n s) \<and> for_states body i n s ! Suc k = v"
  using assms
proof (induction n arbitrary: i s k)
  case 0
  then show ?case by simp
next
  case (Suc n)
  show ?case
  proof (cases k)
    case 0
    then show ?thesis
      by (simp add: for_states_head for_states_nonempty split: sum.splits flow.splits)
  next
    case (Suc k')
    with Suc.prems obtain v where v: "body i s = Inr (Continue v)"
      by (auto split: sum.splits flow.splits)
    from Suc.prems Suc v have "k' < n" "k' < length (for_states body (i + 1) n v)" by simp_all
    from Suc.IH[OF this] have
      "case body (i + 1 + int k') (for_states body (i + 1) n v ! k') of
           Inl e \<Rightarrow> for_range body (i + 1) n v = Inl e
         | Inr (Break w) \<Rightarrow> for_range body (i + 1) n v = Inr w
         | Inr (Continue w) \<Rightarrow>
             Suc k' < length (for_states body (i + 1) n v) \<and> for_states body (i + 1) n v ! Suc k' = w" .
    moreover have "i + 1 + int k' = i + int k" using Suc by simp
    ultimately show ?thesis using v Suc
      by (simp split: sum.splits flow.splits)
  qed
qed

lemma for_states_exhaust:
  assumes "n < length (for_states body i n s)"
  shows "for_range body i n s = Inr (for_states body i n s ! n)"
  using assms
proof (induction n arbitrary: i s)
  case 0
  then show ?case by simp
next
  case (Suc n)
  from Suc.prems obtain v where v: "body i s = Inr (Continue v)"
    by (auto split: sum.splits flow.splits)
  with Suc.prems have "n < length (for_states body (i + 1) n v)" by simp
  from Suc.IH[OF this] v show ?case by simp
qed

text \<open>
  A step that breaks ends the run; one that continues hands its locals to the next step,
  or to the return when it was the last.
\<close>

lemma for_steps_break:
  assumes "k < length (take n (for_states body i n s))"
    and "body (i + int k) (take n (for_states body i n s) ! k) = Inr (Break v)"
  shows "for_range body i n s = Inr v"
proof -
  from assms(1) have k: "k < n" "k < length (for_states body i n s)" by simp_all
  from for_states_step[where body = body and i = i and s = s, OF k] assms(2) k show ?thesis by simp
qed

lemma for_steps_continue:
  assumes "k < length (take n (for_states body i n s))"
    and "body (i + int k) (take n (for_states body i n s) ! k) = Inr (Continue v)"
  shows "if Suc k = n then for_range body i n s = Inr v
         else Suc k < length (take n (for_states body i n s))
           \<and> take n (for_states body i n s) ! Suc k = v"
proof -
  from assms(1) have k: "k < n" "k < length (for_states body i n s)" by simp_all
  from for_states_step[where body = body and i = i and s = s, OF k] assms(2) k
  have nxt: "Suc k < length (for_states body i n s)" "for_states body i n s ! Suc k = v"
    by simp_all
  show ?thesis
  proof (cases "Suc k = n")
    case True
    with nxt for_states_exhaust[of n body i s] show ?thesis by simp
  next
    case False
    with k nxt show ?thesis by simp
  qed
qed

section \<open>Lemmas on the loop bodies\<close>

lemma newton_body_unfold:
  "newton_body func deriv tol i (x, h) =
     (if \<bar>deriv x\<bar> < 1 / 10 ^ 12 then Inr (Break (x, h))
      else if \<bar>x - func x / deriv x - x\<bar> < tol
        then Inr (Break (x - func x / deriv x, h @ [newton_row func deriv i x]))
        else Inr (Continue (x - func x / deriv x, h @ [newton_row func deriv i x])))"
proof (cases "\<bar>deriv x\<bar> < 1 / 10 ^ 12")
  case True
  then show ?thesis by (simp add: newton_body_def)
next
  case False
  then have "deriv x \<noteq> 0" by auto
  with False show ?thesis
    by (simp add: newton_body_def py_div_def Let_def newton_row_def)
qed

lemma secant_body_unfold:
  "secant_body func tol i (xp, xc, h) =
     (if \<bar>func xc - func xp\<bar> < 1 / 10 ^ 12 then Inr (Break (xp, xc, h))
      else if \<bar>secant_next func xp xc - xc\<bar> < tol
        then Inr (Break (xc, secant_next func xp xc, h @ [secant_row func i xp xc]))
        else Inr (Continue (xc, secant_next func xp xc, h @ [secant_row func i xp xc])))"
proof (cases "\<bar>func xc - func xp\<bar> < 1 / 10 ^ 12")
  case True
  then show ?thesis by (simp add: secant_body_def)
next
  case False
  then have "func xc - func xp \<noteq> 0" by auto
  with False show ?thesis
    by (simp add: secant_body_def py_div_def Let_def secant_row_def secant_next_def)
qed

lemma fp_body_unfold:
  assumes "func b \<noteq> func a"
  shows "fp_body func tol i (a, b, c_old, c, h) =
     (if \<bar>fp_c func a b - c_old\<bar> < tol
        then Inr (Break (a, b, c_old, Some (fp_c func a b), h @ [fp_mk_row func i a b c_old]))
      else if func a * func (fp_c func a b) < 0
        then Inr (Continue (a, fp_c func a b, fp_c func a b, Some (fp_c func a b),
               h @ [fp_mk_row func i a b c_old]))
        else Inr (Continue (fp_c func a b, b, fp_c func a b, Some (fp_c func a b),
               h @ [fp_mk_row func i a b c_old])))"
  using assms by (simp add: fp_body_def py_div_def Let_def fp_mk_row_def fp_c_def)

lemma fp_body_zero_div:
  assumes "func b = func a"
  shows "fp_body func tol i (a, b, c_old, c, h) = Inl ZeroDivisionError"
  using assms by (simp add: fp_body_def py_div_def)

lemma fp_body_result:
  assumes "fp_body func tol j (a, b, c_old, c, h) = Inr w"
  shows "func b \<noteq> func a \<and> w =
     (if \<bar>fp_c func a b - c_old\<bar> < tol
        then Break (a, b, c_old, Some (fp_c func a b), h @ [fp_mk_row func j a b c_old])
      else if func a * func (fp_c func a b) < 0
        then Continue (a, fp_c func a b, fp_c func a b, Some (fp_c func a b),
               h @ [fp_mk_row func j a b c_old])
        else Continue (fp_c func a b, b, fp_c func a b, Some (fp_c func a b),
               h @ [fp_mk_row func j a b c_old]))"
proof (cases "func b = func a")
  case True
  with assms show ?thesis by (simp add: fp_body_zero_div)
next
  case False
  with assms show ?thesis by (simp add: fp_body_unfold split: if_splits)
qed

lemma fp_mk_row_sel:
  "fp_Iter (fp_mk_row func i a b c_old) = i + 1"
  "fp_a (fp_mk_row func i a b c_old) = a"
  "fp_b (fp_mk_row func i a b c_old) = b"
  "fp_root (fp_mk_row func i a b c_old) = fp_c func a b"
  "fp_fx (fp_mk_row func i a b c_old) = func (fp_c func a b)"
  "fp_Error (fp_mk_row func i a b c_old) = \<bar>fp_c func a b - c_old\<bar>"
  by (simp_all add: fp_mk_row_def)

lemma fp_bracket_ok_neq: "fp_bracket_ok func a b \<Longrightarrow> func b \<noteq> func a"
  by (auto simp: fp_bracket_ok_def mult_less_0_iff)

lemma fp_c_at_root: "func a = 0 \<Longrightarrow> func b \<noteq> 0 \<Longrightarrow> fp_c func a b = a"
  by (simp add: fp_c_def)

lemma fp_bracket_ok_left:
  assumes "fp_bracket_ok func a b" and "func a * func c < 0"
  shows "fp_bracket_ok func a c"
  using assms by (simp add: fp_bracket_ok_def)

lemma fp_bracket_ok_right:
  assumes "fp_bracket_ok func a b" and "\<not> func a * func (fp_c func a b) < 0"
  shows "fp_bracket_ok func (fp_c func a b) b"
proof (cases "func a = 0")
  case True
  with assms(1) have "func b \<noteq> 0" by (auto simp: fp_bracket_ok_def)
  with True have "fp_c func a b = a" by (rule fp_c_at_root)
  with assms(1) show ?thesis by simp
next
  case False
  with assms(1) have ab: "func a * func b < 0" by (auto simp: fp_bracket_ok_def)
  show ?thesis
  proof (cases "func (fp_c func a b) = 0")
    case True
    with ab show ?thesis by (auto simp: fp_bracket_ok_def)
  next
    case nz: False
    from assms(2) have "0 \<le> func a * func (fp_c func a b)" by simp
    with nz False have "0 < func a * func (fp_c func a b)" by (simp add: less_le)
    with ab have "func (fp_c func a b) * func b < 0"
      by (auto simp: mult_less_0_iff zero_less_mult_iff)
    then show ?thesis by (simp add: fp_bracket_ok_def)
  qed
qed

section \<open>Every routine returns\<close>

lemma newton_body_total: "\<exists>w. newton_body func deriv tol j u = Inr w"
  by (cases u) (simp add: newton_body_unfold)

lemma secant_body_total: "\<exists>w. secant_body func tol j u = Inr w"
  by (cases u) (simp add: secant_body_unfold prod.split)

lemma newton_loop_total: "\<exists>x h. for_range (newton_body func deriv tol) i n s = Inr (x, h)"
proof -
  have "\<exists>t. for_range (newton_body func deriv tol) i n s = Inr t"
    by (rule for_range_total[where P = "\<lambda>u. True"]) (simp_all add: newton_body_total)
  then show ?thesis by auto
qed

lemma secant_loop_total: "\<exists>xp xc h. for_range (secant_body func tol) i n s = Inr (xp, xc, h)"
proof -
  have "\<exists>t. for_range (secant_body func tol) i n s = Inr t"
    by (rule for_range_total[where P = "\<lambda>u. True"]) (simp_all add: secant_body_total)
  then show ?thesis by auto
qed

lemma newton_raphson_returns:
  "\<exists>x h. for_range (newton_body func deriv tol) 0 (nat max_iter) (x0, []) = Inr (x, h)
     \<and> newton_raphson func deriv x0 tol max_iter = Inr (Some x, Some h)"
proof -
  from newton_loop_total obtain x h where
    "for_range (newton_body func deriv tol) 0 (nat max_iter) (x0, []) = Inr (x, h)" by blast
  then show ?thesis by (simp add: newton_raphson_def)
qed

lemma secant_method_returns:
  "\<exists>xp x h. for_range (secant_body func tol) 0 (nat max_iter) (x0, x1, []) = Inr (xp, x, h)
     \<and> secant_method func x0 x1 tol max_iter = Inr (Some x, Some h)"
proof -
  from secant_loop_total obtain xp x h where
    "for_range (secant_body func tol) 0 (nat max_iter) (x0, x1, []) = Inr (xp, x, h)" by blast
  then show ?thesis by (simp add: secant_method_def)
qed

text \<open>
  The loop of \<open>false_position\<close> keeps the bracket condition, so it never divides by zero;
  after one iteration \<^verbatim>\<open>c\<close> is assigned.
\<close>

lemma fp_body_keeps_ok:
  assumes "fp_ok func u" and "fp_body func tol j u = Inr (Continue v)"
  shows "fp_ok func v"
proof -
  obtain a b c_old c h where u: "u = (a, b, c_old, c, h)" by (cases u)
  with assms(1) have ok: "fp_bracket_ok func a b" by (simp add: fp_ok_def)
  then have ne: "func b \<noteq> func a" by (rule fp_bracket_ok_neq)
  show ?thesis
  proof (cases "func a * func (fp_c func a b) < 0")
    case True
    with assms(2) u ne have "v = (a, fp_c func a b, fp_c func a b, Some (fp_c func a b),
        h @ [fp_mk_row func j a b c_old])"
      by (simp add: fp_body_unfold split: if_splits)
    with fp_bracket_ok_left[OF ok True] show ?thesis by (simp add: fp_ok_def)
  next
    case False
    with assms(2) u ne have "v = (fp_c func a b, b, fp_c func a b, Some (fp_c func a b),
        h @ [fp_mk_row func j a b c_old])"
      by (simp add: fp_body_unfold split: if_splits)
    with fp_bracket_ok_right[OF ok False] show ?thesis by (simp add: fp_ok_def)
  qed
qed

lemma fp_body_total:
  assumes "fp_ok func u"
  shows "\<exists>w. fp_body func tol j u = Inr w"
proof -
  obtain a b c_old c h where u: "u = (a, b, c_old, c, h)" by (cases u)
  with assms have "func b \<noteq> func a" by (simp add: fp_ok_def fp_bracket_ok_neq)
  with u show ?thesis by (simp add: fp_body_unfold)
qed

lemma fp_loop_total:
  assumes "fp_ok func s"
  shows "\<exists>t. for_range (fp_body func tol) i n s = Inr t"
  by (rule for_range_total[where P = "fp_ok func", OF assms])
     (auto intro: fp_body_keeps_ok fp_body_total)

lemma fp_body_sets_c:
  assumes "fp_body func tol j u = Inr w"
  shows "case w of Break v \<Rightarrow> fp_c_set v | Continue v \<Rightarrow> fp_c_set v"
proof -
  obtain a b c_old c h where u: "u = (a, b, c_old, c, h)" by (cases u)
  show ?thesis
  proof (cases "func b = func a")
    case True
    with assms u show ?thesis by (simp add: fp_body_zero_div)
  next
    case False
    with assms u show ?thesis
      by (auto simp: fp_body_unfold fp_c_set_def split: if_splits)
  qed
qed

lemma fp_loop_sets_c:
  assumes "for_range (fp_body func tol) i (Suc n) s = Inr t"
  shows "fp_c_set t"
proof (cases "fp_body func tol i s")
  case (Inl e)
  with assms show ?thesis by simp
next
  case (Inr w)
  note w = fp_body_sets_c[OF Inr]
  show ?thesis
  proof (cases w)
    case (Break v)
    with Inr assms w show ?thesis by simp
  next
    case (Continue v)
    with Inr assms have run: "for_range (fp_body func tol) (i + 1) n v = Inr t" by simp
    from w Continue have "fp_c_set v" by simp
    show ?thesis
    proof (rule for_range_rule[where P = fp_c_set and Q = fp_c_set, OF run \<open>fp_c_set v\<close>])
      fix j u v' assume "fp_body func tol j u = Inr (Continue v')"
      from fp_body_sets_c[OF this] show "fp_c_set v'" by simp
    next
      fix j u v' assume "fp_body func tol j u = Inr (Break v')"
      from fp_body_sets_c[OF this] show "fp_c_set v'" by simp
    qed
  qed
qed

lemma false_position_exec_returns:
  assumes "func a * func b < 0" and "1 \<le> max_iter"
  shows "\<exists>a' b' c_old c h.
     for_range (fp_body func tol) 0 (nat max_iter) (a, b, a, None, []) = Inr (a', b', c_old, Some c, h)
     \<and> false_position_exec func a b tol max_iter = Inr (h, (Some c, Some h))"
proof -
  from assms(1) have "fp_ok func (a, b, a, None, [])" by (simp add: fp_ok_def fp_bracket_ok_def)
  from fp_loop_total[OF this] obtain t where
    t: "for_range (fp_body func tol) 0 (nat max_iter) (a, b, a, None, []) = Inr t" by blast
  from assms(2) obtain n where "nat max_iter = Suc n" by (cases "nat max_iter") auto
  with t fp_loop_sets_c have "fp_c_set t" by metis
  then obtain a' b' c_old c h where "t = (a', b', c_old, Some c, h)"
    by (cases t) (auto simp: fp_c_set_def)
  with t assms(1) show ?thesis by (simp add: false_position_exec_def not_le[symmetric])
qed

lemma false_position_returns:
  assumes "1 \<le> max_iter"
  shows "\<exists>r. false_position func a b tol max_iter = Inr r"
proof (cases "func a * func b < 0")
  case True
  from false_position_exec_returns[where func = func and a = a and b = b and tol = tol, OF True assms]
  obtain c h where "false_position_exec func a b tol max_iter = Inr (h, (Some c, Some h))"
    by blast
  then show ?thesis by (simp add: false_position_def)
next
  case False
  then show ?thesis by (simp add: false_position_def false_position_exec_def)
qed

lemma false_position_trace:
  assumes "false_position func a b tol max_iter = Inr (e, Some h)"
  shows "func a * func b < 0
    \<and> (\<exists>a' b' c_old c. for_range (fp_body func tol) 0 (nat max_iter) (a, b, a, None, [])
          = Inr (a', b', c_old, Some c, h) \<and> e = Some c)"
  using assms
  by (auto simp: false_position_def false_position_exec_def split: if_splits sum.splits option.splits)

lemma newton_trace:
  assumes "newton_raphson func deriv x0 tol max_iter = Inr (e, Some h)"
  shows "\<exists>x. for_range (newton_body func deriv tol) 0 (nat max_iter) (x0, []) = Inr (x, h) \<and> e = Some x"
  using assms by (auto simp: newton_raphson_def split: sum.splits)

lemma secant_trace:
  assumes "secant_method func x0 x1 tol max_iter = Inr (e, Some h)"
  shows "\<exists>xp x. for_range (secant_body func tol) 0 (nat max_iter) (x0, x1, []) = Inr (xp, x, h) \<and> e = Some x"
  using assms by (auto simp: secant_method_def split: sum.splits)


section \<open>Invalid bracket\<close>

text \<open>
  C1.  When \<open>f(a) * f(b) \<ge> 0\<close>, \<open>false_position\<close> returns the pair \<open>(None, None)\<close>; the list
  \<^verbatim>\<open>history\<close> is still empty when it returns, and the loop is not entered: it goes
  through no bracket.
\<close>

theorem false_position_invalid_bracket:
  assumes "func a * func b \<ge> 0"
  shows "false_position func a b tol max_iter = Inr (None, None)
       \<and> false_position_exec func a b tol max_iter = Inr ([], (None, None))
       \<and> fp_brackets func a b tol max_iter = []"
  using assms by (simp add: false_position_def false_position_exec_def fp_brackets_def)

theorem false_position_invalid_bracket_witness:
  "(\<lambda>x::real. x) 1 * (\<lambda>x::real. x) 2 \<ge> 0
   \<and> false_position (\<lambda>x. x) 1 2 (1 / 10 ^ 6) 50 = Inr (None, None)
   \<and> false_position_exec (\<lambda>x. x) 1 2 (1 / 10 ^ 6) 50 = Inr ([], (None, None))
   \<and> fp_brackets (\<lambda>x. x) 1 2 (1 / 10 ^ 6) 50 = []"
  using false_position_invalid_bracket[of "\<lambda>x. x" 1 2 "1 / 10 ^ 6" 50] by simp

section \<open>The bracket of false position\<close>




section \<open>Length of the trace\<close>

text \<open>
  The history grows by at most one row per iteration.
\<close>

lemma newton_body_length:
  assumes "newton_body func deriv tol j u = Inr (Continue v) \<or> newton_body func deriv tol j u = Inr (Break v)"
  shows "length (snd v) \<le> Suc (length (snd u))"
  using assms by (cases u) (auto simp: newton_body_unfold split: if_splits)

lemma secant_body_length:
  assumes "secant_body func tol j u = Inr (Continue v) \<or> secant_body func tol j u = Inr (Break v)"
  shows "length (snd (snd v)) \<le> Suc (length (snd (snd u)))"
  using assms by (cases u) (auto simp: secant_body_unfold split: if_splits)

lemma fp_body_length:
  assumes "fp_body func tol j u = Inr (Continue v) \<or> fp_body func tol j u = Inr (Break v)"
  shows "length (snd (snd (snd (snd v)))) \<le> Suc (length (snd (snd (snd (snd u)))))"
proof -
  obtain a b c_old c h where u: "u = (a, b, c_old, c, h)" by (cases u)
  show ?thesis
  proof (cases "func b = func a")
    case True
    with assms u show ?thesis by (simp add: fp_body_zero_div)
  next
    case False
    with assms u show ?thesis by (auto simp: fp_body_unfold split: if_splits)
  qed
qed

lemma newton_loop_length:
  assumes "for_range (newton_body func deriv tol) i n (x, h) = Inr (x', h')"
  shows "length h' \<le> length h + n"
  using for_range_count[where m = "\<lambda>u. length (snd u)", OF assms] newton_body_length
  by fastforce

lemma secant_loop_length:
  assumes "for_range (secant_body func tol) i n (xp, xc, h) = Inr (xp', xc', h')"
  shows "length h' \<le> length h + n"
  using for_range_count[where m = "\<lambda>u. length (snd (snd u))", OF assms] secant_body_length
  by fastforce

lemma fp_loop_length:
  assumes "for_range (fp_body func tol) i n (a, b, c_old, c, h) = Inr (a', b', c_old', c', h')"
  shows "length h' \<le> length h + n"
  using for_range_count[where m = "\<lambda>u. length (snd (snd (snd (snd u))))", OF assms] fp_body_length
  by fastforce

text \<open>
  C3.  For every function, every starting point or bracket, every \<open>tol > 0\<close> and every
  \<open>max_iter \<ge> 1\<close>, each of \<open>newton_raphson\<close>, \<open>secant_method\<close> and \<open>false_position\<close>
  returns, and the trace it returns has at most \<open>max_iter\<close> rows (\<open>false_position\<close> on a
  refused bracket returns no trace at all).
\<close>

theorem trace_length_le_max_iter:
  assumes "0 < tol" and "1 \<le> max_iter"
  shows "(\<exists>x h. newton_raphson func deriv x0 tol max_iter = Inr (Some x, Some h)
            \<and> int (length h) \<le> max_iter)
       \<and> (\<exists>x h. secant_method func x0 x1 tol max_iter = Inr (Some x, Some h)
            \<and> int (length h) \<le> max_iter)
       \<and> (\<exists>e t. false_position func a b tol max_iter = Inr (e, t)
            \<and> (\<forall>h. t = Some h \<longrightarrow> int (length h) \<le> max_iter))"
proof (intro conjI)
  from newton_raphson_returns obtain x h where
    run: "for_range (newton_body func deriv tol) 0 (nat max_iter) (x0, []) = Inr (x, h)"
    and ret: "newton_raphson func deriv x0 tol max_iter = Inr (Some x, Some h)" by blast
  from newton_loop_length[OF run] assms(2) have "int (length h) \<le> max_iter" by simp
  with ret show "\<exists>x h. newton_raphson func deriv x0 tol max_iter = Inr (Some x, Some h)
            \<and> int (length h) \<le> max_iter" by blast
next
  from secant_method_returns obtain xp x h where
    run: "for_range (secant_body func tol) 0 (nat max_iter) (x0, x1, []) = Inr (xp, x, h)"
    and ret: "secant_method func x0 x1 tol max_iter = Inr (Some x, Some h)" by blast
  from secant_loop_length[OF run] assms(2) have "int (length h) \<le> max_iter" by simp
  with ret show "\<exists>x h. secant_method func x0 x1 tol max_iter = Inr (Some x, Some h)
            \<and> int (length h) \<le> max_iter" by blast
next
  from false_position_returns[OF assms(2)] obtain e t where
    ret: "false_position func a b tol max_iter = Inr (e, t)" by (metis surj_pair)
  have "int (length h) \<le> max_iter" if "t = Some h" for h
  proof -
    from false_position_trace ret that obtain a' b' c_old c where
      "for_range (fp_body func tol) 0 (nat max_iter) (a, b, a, None, []) = Inr (a', b', c_old, Some c, h)"
      by blast
    from fp_loop_length[OF this] assms(2) show ?thesis by simp
  qed
  with ret show "\<exists>e t. false_position func a b tol max_iter = Inr (e, t)
            \<and> (\<forall>h. t = Some h \<longrightarrow> int (length h) \<le> max_iter)" by blast
qed

theorem trace_length_le_max_iter_witness:
  "(0::real) < 1 / 10 ^ 6 \<and> (1::int) \<le> 2
   \<and> (\<exists>x h. newton_raphson (\<lambda>x. x * x - 2) (\<lambda>x. 2 * x) 1 (1 / 10 ^ 6) 2 = Inr (Some x, Some h)
            \<and> int (length h) \<le> 2)
   \<and> (\<exists>x h. secant_method (\<lambda>x. x * x - 2) 1 2 (1 / 10 ^ 6) 2 = Inr (Some x, Some h)
            \<and> int (length h) \<le> 2)
   \<and> (\<exists>e t. false_position (\<lambda>x. x * x - 2) 1 2 (1 / 10 ^ 6) 2 = Inr (e, t)
            \<and> (\<forall>h. t = Some h \<longrightarrow> int (length h) \<le> 2))"
  using trace_length_le_max_iter[where tol = "1 / 10 ^ 6" and max_iter = 2
      and func = "\<lambda>x. x * x - 2" and deriv = "\<lambda>x. 2 * x" and ?x0.0 = 1 and ?x1.0 = 2
      and a = 1 and b = 2]
  by simp

section \<open>The iteration stops at the first converged row\<close>

lemma stops_at_first_none:
  assumes "\<forall>r \<in> set h. \<not> err r < tol"
  shows "stops_at_first err tol h"
  using assms by (auto simp: stops_at_first_def)

lemma stops_at_first_snoc:
  assumes "\<forall>r \<in> set h. \<not> err r < tol"
  shows "stops_at_first err tol (h @ [r])"
  using assms by (auto simp: stops_at_first_def nth_append less_Suc_eq)

lemma stops_at_first_first:
  assumes "stops_at_first err tol t"
  shows "\<forall>k < length t. err (t ! k) < tol \<longrightarrow>
         length t = Suc k \<and> (\<forall>j < k. \<not> err (t ! j) < tol)"
proof (intro allI impI conjI)
  fix k assume k: "k < length t" "err (t ! k) < tol"
  with assms show len: "length t = Suc k" by (simp add: stops_at_first_def)
  fix j assume j: "j < k"
  show "\<not> err (t ! j) < tol"
  proof
    assume "err (t ! j) < tol"
    with assms j k(1) have "length t = Suc j" by (simp add: stops_at_first_def)
    with len j show False by simp
  qed
qed

lemma newton_loop_stops_at_first:
  assumes "for_range (newton_body func deriv tol) i n (x, h) = Inr (x', h')"
    and "\<forall>r \<in> set h. \<not> row_Error r < tol"
  shows "stops_at_first row_Error tol h'"
proof -
  have "(\<lambda>(x, h). stops_at_first row_Error tol h) (x', h')"
  proof (rule for_range_rule[where P = "\<lambda>(x, h). \<forall>r \<in> set h. \<not> row_Error r < tol", OF assms(1)])
    show "case (x, h) of (x, h) \<Rightarrow> \<forall>r \<in> set h. \<not> row_Error r < tol" using assms(2) by simp
  next
    fix j u v
    assume "case u of (x, h) \<Rightarrow> \<forall>r \<in> set h. \<not> row_Error r < tol"
      and "newton_body func deriv tol j u = Inr (Continue v)"
    then show "case v of (x, h) \<Rightarrow> \<forall>r \<in> set h. \<not> row_Error r < tol"
      by (cases u) (auto simp: newton_body_unfold newton_row_def split: if_splits)
  next
    fix j u v
    assume "case u of (x, h) \<Rightarrow> \<forall>r \<in> set h. \<not> row_Error r < tol"
      and "newton_body func deriv tol j u = Inr (Break v)"
    then show "case v of (x, h) \<Rightarrow> stops_at_first row_Error tol h"
      by (cases u) (auto simp: newton_body_unfold stops_at_first_none stops_at_first_snoc split: if_splits)
  next
    fix u :: "real \<times> row list"
    assume "case u of (x, h) \<Rightarrow> \<forall>r \<in> set h. \<not> row_Error r < tol"
    then show "case u of (x, h) \<Rightarrow> stops_at_first row_Error tol h"
      by (cases u) (simp add: stops_at_first_none)
  qed
  then show ?thesis by simp
qed

lemma secant_loop_stops_at_first:
  assumes "for_range (secant_body func tol) i n (xp, xc, h) = Inr (xp', xc', h')"
    and "\<forall>r \<in> set h. \<not> row_Error r < tol"
  shows "stops_at_first row_Error tol h'"
proof -
  have "(\<lambda>(xp, xc, h). stops_at_first row_Error tol h) (xp', xc', h')"
  proof (rule for_range_rule[where P = "\<lambda>(xp, xc, h). \<forall>r \<in> set h. \<not> row_Error r < tol", OF assms(1)])
    show "case (xp, xc, h) of (xp, xc, h) \<Rightarrow> \<forall>r \<in> set h. \<not> row_Error r < tol"
      using assms(2) by simp
  next
    fix j u v
    assume "case u of (xp, xc, h) \<Rightarrow> \<forall>r \<in> set h. \<not> row_Error r < tol"
      and "secant_body func tol j u = Inr (Continue v)"
    then show "case v of (xp, xc, h) \<Rightarrow> \<forall>r \<in> set h. \<not> row_Error r < tol"
      by (cases u) (auto simp: secant_body_unfold secant_row_def split: if_splits)
  next
    fix j u v
    assume "case u of (xp, xc, h) \<Rightarrow> \<forall>r \<in> set h. \<not> row_Error r < tol"
      and "secant_body func tol j u = Inr (Break v)"
    then show "case v of (xp, xc, h) \<Rightarrow> stops_at_first row_Error tol h"
      by (cases u) (auto simp: secant_body_unfold stops_at_first_none stops_at_first_snoc split: if_splits)
  next
    fix u :: "real \<times> real \<times> row list"
    assume "case u of (xp, xc, h) \<Rightarrow> \<forall>r \<in> set h. \<not> row_Error r < tol"
    then show "case u of (xp, xc, h) \<Rightarrow> stops_at_first row_Error tol h"
      by (cases u) (simp add: stops_at_first_none)
  qed
  then show ?thesis by simp
qed

lemma fp_loop_stops_at_first:
  assumes "for_range (fp_body func tol) i n (a, b, c_old, c, h) = Inr (a', b', c_old', c', h')"
    and "\<forall>r \<in> set h. \<not> fp_Error r < tol"
  shows "stops_at_first fp_Error tol h'"
proof -
  have "(\<lambda>(a, b, c_old, c, h). stops_at_first fp_Error tol h) (a', b', c_old', c', h')"
  proof (rule for_range_rule[where P = "\<lambda>(a, b, c_old, c, h). \<forall>r \<in> set h. \<not> fp_Error r < tol",
        OF assms(1)])
    show "case (a, b, c_old, c, h) of (a, b, c_old, c, h) \<Rightarrow> \<forall>r \<in> set h. \<not> fp_Error r < tol"
      using assms(2) by simp
  next
    fix j u v
    assume P: "case u of (a, b, c_old, c, h) \<Rightarrow> \<forall>r \<in> set h. \<not> fp_Error r < tol"
      and run: "fp_body func tol j u = Inr (Continue v)"
    obtain a b c_old c h where u: "u = (a, b, c_old, c, h)" by (cases u)
    from fp_body_result[OF run[unfolded u]] P u
    show "case v of (a, b, c_old, c, h) \<Rightarrow> \<forall>r \<in> set h. \<not> fp_Error r < tol"
      by (auto simp: fp_mk_row_def split: if_splits)
  next
    fix j u v
    assume P: "case u of (a, b, c_old, c, h) \<Rightarrow> \<forall>r \<in> set h. \<not> fp_Error r < tol"
      and run: "fp_body func tol j u = Inr (Break v)"
    obtain a b c_old c h where u: "u = (a, b, c_old, c, h)" by (cases u)
    from fp_body_result[OF run[unfolded u]] P u
    show "case v of (a, b, c_old, c, h) \<Rightarrow> stops_at_first fp_Error tol h"
      by (auto simp: stops_at_first_snoc split: if_splits)
  next
    fix u :: fp_locals
    assume "case u of (a, b, c_old, c, h) \<Rightarrow> \<forall>r \<in> set h. \<not> fp_Error r < tol"
    then show "case u of (a, b, c_old, c, h) \<Rightarrow> stops_at_first fp_Error tol h"
      by (cases u) (simp add: stops_at_first_none)
  qed
  then show ?thesis by simp
qed

text \<open>
  C4.  In the trace returned by each of the three routines, a row whose \<open>Error\<close> is below
  \<open>tol\<close> is the last row and the first such row: the length of the trace is the 1-based
  index of that row, and no row before it has its \<open>Error\<close> below \<open>tol\<close>.
\<close>

theorem stops_at_first_converged_row:
  "(newton_raphson func deriv x0 tol max_iter = Inr (e, Some h) \<longrightarrow>
      (\<forall>k < length h. row_Error (h ! k) < tol \<longrightarrow>
         length h = Suc k \<and> (\<forall>j < k. \<not> row_Error (h ! j) < tol)))
   \<and> (secant_method func x0 x1 tol max_iter = Inr (e', Some h') \<longrightarrow>
      (\<forall>k < length h'. row_Error (h' ! k) < tol \<longrightarrow>
         length h' = Suc k \<and> (\<forall>j < k. \<not> row_Error (h' ! j) < tol)))
   \<and> (false_position func a b tol max_iter = Inr (e'', Some g) \<longrightarrow>
      (\<forall>k < length g. fp_Error (g ! k) < tol \<longrightarrow>
         length g = Suc k \<and> (\<forall>j < k. \<not> fp_Error (g ! j) < tol)))"
proof (intro conjI impI)
  assume r: "newton_raphson func deriv x0 tol max_iter = Inr (e, Some h)"
  have "stops_at_first row_Error tol h"
    using newton_trace[OF r] newton_loop_stops_at_first[where h = "[]"] by fastforce
  then show "\<forall>k < length h. row_Error (h ! k) < tol \<longrightarrow>
         length h = Suc k \<and> (\<forall>j < k. \<not> row_Error (h ! j) < tol)"
    by (rule stops_at_first_first)
next
  assume r: "secant_method func x0 x1 tol max_iter = Inr (e', Some h')"
  have "stops_at_first row_Error tol h'"
    using secant_trace[OF r] secant_loop_stops_at_first[where h = "[]"] by fastforce
  then show "\<forall>k < length h'. row_Error (h' ! k) < tol \<longrightarrow>
         length h' = Suc k \<and> (\<forall>j < k. \<not> row_Error (h' ! j) < tol)"
    by (rule stops_at_first_first)
next
  assume r: "false_position func a b tol max_iter = Inr (e'', Some g)"
  have "stops_at_first fp_Error tol g"
    using false_position_trace[OF r] fp_loop_stops_at_first[where h = "[]"] by fastforce
  then show "\<forall>k < length g. fp_Error (g ! k) < tol \<longrightarrow>
         length g = Suc k \<and> (\<forall>j < k. \<not> fp_Error (g ! j) < tol)"
    by (rule stops_at_first_first)
qed

text \<open>
  Three runs, evaluated.
\<close>

lemma newton_example:
  "newton_raphson (\<lambda>x. x * x - 2) (\<lambda>x. 2 * x) 1 (1 / 10) 5 =
     Inr (Some (17 / 12),
       Some [\<lparr>row_Iter = 1, row_Method = ''Newton'', row_x_curr = 1, row_fx = - 1, row_Error = 1 / 2\<rparr>,
             \<lparr>row_Iter = 2, row_Method = ''Newton'', row_x_curr = 3 / 2, row_fx = 1 / 4,
               row_Error = 1 / 12\<rparr>])"
  by (simp add: newton_raphson_def newton_body_def py_div_def eval_nat_numeral)

lemma secant_example:
  "secant_method (\<lambda>x. x * x - 2) 1 2 (1 / 10) 5 =
     Inr (Some (7 / 5),
       Some [\<lparr>row_Iter = 1, row_Method = ''Secant'', row_x_curr = 2, row_fx = 2, row_Error = 2 / 3\<rparr>,
             \<lparr>row_Iter = 2, row_Method = ''Secant'', row_x_curr = 4 / 3, row_fx = - (2 / 9),
               row_Error = 1 / 15\<rparr>])"
  by (simp add: secant_method_def secant_body_def py_div_def eval_nat_numeral)

lemma false_position_example:
  "false_position (\<lambda>x. x) (- 1) 1 (1 / 10 ^ 6) 50 =
     Inr (Some 0,
       Some [\<lparr>fp_Iter = 1, fp_Method = ''FalsePos'', fp_a = - 1, fp_b = 1, fp_root = 0, fp_fx = 0,
               fp_Error = 1\<rparr>,
             \<lparr>fp_Iter = 2, fp_Method = ''FalsePos'', fp_a = 0, fp_b = 1, fp_root = 0, fp_fx = 0,
               fp_Error = 0\<rparr>])"
  by (simp add: false_position_def false_position_exec_def fp_body_def py_div_def eval_nat_numeral)

theorem stops_at_first_converged_row_witness:
  "(\<exists>e h. newton_raphson (\<lambda>x. x * x - 2) (\<lambda>x. 2 * x) 1 (1 / 10) 5 = Inr (e, Some h)
      \<and> 1 < length h \<and> row_Error (h ! 1) < 1 / 10
      \<and> length h = Suc 1 \<and> (\<forall>j < 1. \<not> row_Error (h ! j) < 1 / 10))
   \<and> (\<exists>e h. secant_method (\<lambda>x. x * x - 2) 1 2 (1 / 10) 5 = Inr (e, Some h)
      \<and> 1 < length h \<and> row_Error (h ! 1) < 1 / 10
      \<and> length h = Suc 1 \<and> (\<forall>j < 1. \<not> row_Error (h ! j) < 1 / 10))
   \<and> (\<exists>e g. false_position (\<lambda>x. x) (- 1) 1 (1 / 10 ^ 6) 50 = Inr (e, Some g)
      \<and> 1 < length g \<and> fp_Error (g ! 1) < 1 / 10 ^ 6
      \<and> length g = Suc 1 \<and> (\<forall>j < 1. \<not> fp_Error (g ! j) < 1 / 10 ^ 6))"
proof (intro conjI)
  let ?h = "[\<lparr>row_Iter = 1, row_Method = ''Newton'', row_x_curr = 1, row_fx = - 1, row_Error = 1 / 2\<rparr>,
             \<lparr>row_Iter = 2, row_Method = ''Newton'', row_x_curr = 3 / 2, row_fx = 1 / 4,
               row_Error = 1 / 12\<rparr>]"
  have k: "1 < length ?h" "row_Error (?h ! 1) < 1 / 10" by simp_all
  from stops_at_first_converged_row[THEN conjunct1, rule_format, OF newton_example k]
  have "length ?h = Suc 1 \<and> (\<forall>j < 1. \<not> row_Error (?h ! j) < 1 / 10)" .
  with newton_example k
  show "\<exists>e h. newton_raphson (\<lambda>x. x * x - 2) (\<lambda>x. 2 * x) 1 (1 / 10) 5 = Inr (e, Some h)
      \<and> 1 < length h \<and> row_Error (h ! 1) < 1 / 10
      \<and> length h = Suc 1 \<and> (\<forall>j < 1. \<not> row_Error (h ! j) < 1 / 10)" by blast
next
  let ?h = "[\<lparr>row_Iter = 1, row_Method = ''Secant'', row_x_curr = 2, row_fx = 2, row_Error = 2 / 3\<rparr>,
             \<lparr>row_Iter = 2, row_Method = ''Secant'', row_x_curr = 4 / 3, row_fx = - (2 / 9),
               row_Error = 1 / 15\<rparr>]"
  have k: "1 < length ?h" "row_Error (?h ! 1) < 1 / 10" by simp_all
  from stops_at_first_converged_row[THEN conjunct2, THEN conjunct1, rule_format, OF secant_example k]
  have "length ?h = Suc 1 \<and> (\<forall>j < 1. \<not> row_Error (?h ! j) < 1 / 10)" .
  with secant_example k
  show "\<exists>e h. secant_method (\<lambda>x. x * x - 2) 1 2 (1 / 10) 5 = Inr (e, Some h)
      \<and> 1 < length h \<and> row_Error (h ! 1) < 1 / 10
      \<and> length h = Suc 1 \<and> (\<forall>j < 1. \<not> row_Error (h ! j) < 1 / 10)" by blast
next
  let ?g = "[\<lparr>fp_Iter = 1, fp_Method = ''FalsePos'', fp_a = - 1, fp_b = 1, fp_root = 0, fp_fx = 0,
               fp_Error = 1\<rparr>,
             \<lparr>fp_Iter = 2, fp_Method = ''FalsePos'', fp_a = 0, fp_b = 1, fp_root = 0, fp_fx = 0,
               fp_Error = 0\<rparr>]"
  have k: "1 < length ?g" "fp_Error (?g ! 1) < 1 / 10 ^ 6" by simp_all
  from stops_at_first_converged_row[THEN conjunct2, THEN conjunct2, rule_format, OF false_position_example k]
  have "length ?g = Suc 1 \<and> (\<forall>j < 1. \<not> fp_Error (?g ! j) < 1 / 10 ^ 6)" .
  with false_position_example k
  show "\<exists>e g. false_position (\<lambda>x. x) (- 1) 1 (1 / 10 ^ 6) 50 = Inr (e, Some g)
      \<and> 1 < length g \<and> fp_Error (g ! 1) < 1 / 10 ^ 6
      \<and> length g = Suc 1 \<and> (\<forall>j < 1. \<not> fp_Error (g ! j) < 1 / 10 ^ 6)" by blast
qed

section \<open>No routine raises\<close>



section \<open>The guard of Newton-Raphson\<close>

text \<open>
  C6.  \<open>newton_steps\<close> lists the locals \<open>(x_curr, history)\<close> at the head of every step
  that \<open>newton_raphson\<close> enters.  At a step where \<open>\<bar>f'(x_curr)\<bar> < 1e-12\<close> the body breaks
  with the locals unchanged, without dividing, and the routine returns that \<open>x_curr\<close> and
  that \<open>history\<close>.  When this is so at \<open>x0\<close>, it returns \<open>x0\<close> and the empty trace.
\<close>

theorem newton_singular_derivative_stops:
  "(\<forall>k x h. k < length (newton_steps func deriv x0 tol max_iter)
        \<longrightarrow> newton_steps func deriv x0 tol max_iter ! k = (x, h)
        \<longrightarrow> \<bar>deriv x\<bar> < 1 / 10 ^ 12
        \<longrightarrow> newton_body func deriv tol (int k) (x, h) = Inr (Break (x, h))
           \<and> newton_raphson func deriv x0 tol max_iter = Inr (Some x, Some h))
   \<and> (\<bar>deriv x0\<bar> < 1 / 10 ^ 12
        \<longrightarrow> newton_raphson func deriv x0 tol max_iter = Inr (Some x0, Some []))"
proof (intro conjI allI impI)
  fix k x h
  assume k: "k < length (newton_steps func deriv x0 tol max_iter)"
    and st: "newton_steps func deriv x0 tol max_iter ! k = (x, h)"
    and sing: "\<bar>deriv x\<bar> < 1 / 10 ^ 12"
  from sing show brk: "newton_body func deriv tol (int k) (x, h) = Inr (Break (x, h))"
    by (simp add: newton_body_unfold)
  from k st brk have "for_range (newton_body func deriv tol) 0 (nat max_iter) (x0, []) = Inr (x, h)"
    unfolding newton_steps_def by (intro for_steps_break[where k = k]) simp_all
  then show "newton_raphson func deriv x0 tol max_iter = Inr (Some x, Some h)"
    by (simp add: newton_raphson_def)
next
  assume sing: "\<bar>deriv x0\<bar> < 1 / 10 ^ 12"
  show "newton_raphson func deriv x0 tol max_iter = Inr (Some x0, Some [])"
  proof (cases "nat max_iter")
    case 0
    then show ?thesis by (simp add: newton_raphson_def)
  next
    case (Suc n)
    with sing show ?thesis by (simp add: newton_raphson_def newton_body_unfold)
  qed
qed

lemma newton_steps_example:
  "newton_steps (\<lambda>x. x) (\<lambda>x. if x = 1 then 1 else 0) 1 (1 / 10) 50 =
     [(1, []),
      (0, [\<lparr>row_Iter = 1, row_Method = ''Newton'', row_x_curr = 1, row_fx = 1, row_Error = 1\<rparr>])]"
  by (simp add: newton_steps_def newton_body_def py_div_def eval_nat_numeral)

theorem newton_singular_derivative_stops_witness:
  "1 < length (newton_steps (\<lambda>x. x) (\<lambda>x. if x = 1 then 1 else 0) 1 (1 / 10) 50)
   \<and> newton_steps (\<lambda>x. x) (\<lambda>x. if x = 1 then 1 else 0) 1 (1 / 10) 50 ! 1 =
       (0, [\<lparr>row_Iter = 1, row_Method = ''Newton'', row_x_curr = 1, row_fx = 1, row_Error = 1\<rparr>])
   \<and> \<bar>(\<lambda>x::real. if x = 1 then 1 else 0) 0 :: real\<bar> < 1 / 10 ^ 12
   \<and> newton_raphson (\<lambda>x. x) (\<lambda>x. if x = 1 then 1 else 0) 1 (1 / 10) 50 =
       Inr (Some 0,
         Some [\<lparr>row_Iter = 1, row_Method = ''Newton'', row_x_curr = 1, row_fx = 1, row_Error = 1\<rparr>])
   \<and> \<bar>(\<lambda>x::real. 0) 3 :: real\<bar> < 1 / 10 ^ 12
   \<and> newton_raphson (\<lambda>x. x) (\<lambda>x. 0) 3 (1 / 10) 50 = Inr (Some 3, Some [])"
  using newton_singular_derivative_stops[where func = "\<lambda>x. x"
      and deriv = "\<lambda>x. if x = 1 then 1 else 0" and ?x0.0 = 1 and tol = "1 / 10"
      and max_iter = 50, THEN conjunct1, rule_format, of 1 0
      "[\<lparr>row_Iter = 1, row_Method = ''Newton'', row_x_curr = 1, row_fx = 1, row_Error = 1\<rparr>]"]
    newton_singular_derivative_stops[where func = "\<lambda>x. x" and deriv = "\<lambda>x. 0" and ?x0.0 = 3
      and tol = "1 / 10" and max_iter = 50, THEN conjunct2]
  by (simp add: newton_steps_example)

section \<open>The step of the secant method\<close>

text \<open>
  C7.  \<open>secant_steps\<close> lists the locals \<open>(x_prev, x_curr, history)\<close> at the head of every
  step that \<open>secant_method\<close> enters.  At a step where \<open>\<bar>f(x_curr) - f(x_prev)\<bar> < 1e-12\<close>
  the routine returns that \<open>x_curr\<close> and that \<open>history\<close>.  Otherwise the step computes
  \<open>x_next = x_curr - f(x_curr) * (x_curr - x_prev) / (f(x_curr) - f(x_prev))\<close>, appends its row
  and shifts the window to \<open>(x_curr, x_next)\<close>: these are the locals of the next step, or,
  when the step converged or was the last one, \<open>x_next\<close> and the extended history are
  returned.
\<close>

theorem secant_step:
  assumes "k < length (secant_steps func x0 x1 tol max_iter)"
    and "secant_steps func x0 x1 tol max_iter ! k = (x_prev, x_curr, h)"
  shows "(\<bar>func x_curr - func x_prev\<bar> < 1 / 10 ^ 12 \<longrightarrow>
            secant_method func x0 x1 tol max_iter = Inr (Some x_curr, Some h))
       \<and> (\<not> \<bar>func x_curr - func x_prev\<bar> < 1 / 10 ^ 12 \<longrightarrow>
            (let x_next = x_curr - func x_curr * ((x_curr - x_prev) / (func x_curr - func x_prev));
                 h' = h @ [\<lparr>row_Iter = int k + 1, row_Method = ''Secant'', row_x_curr = x_curr,
                            row_fx = func x_curr, row_Error = \<bar>x_next - x_curr\<bar>\<rparr>]
             in if \<bar>x_next - x_curr\<bar> < tol \<or> int k + 1 = max_iter
                then secant_method func x0 x1 tol max_iter = Inr (Some x_next, Some h')
                else Suc k < length (secant_steps func x0 x1 tol max_iter)
                   \<and> secant_steps func x0 x1 tol max_iter ! Suc k = (x_curr, x_next, h')))"
proof (intro conjI impI)
  assume deg: "\<bar>func x_curr - func x_prev\<bar> < 1 / 10 ^ 12"
  then have "secant_body func tol (0 + int k) (x_prev, x_curr, h) = Inr (Break (x_prev, x_curr, h))"
    by (simp add: secant_body_unfold)
  with assms have "for_range (secant_body func tol) 0 (nat max_iter) (x0, x1, []) = Inr (x_prev, x_curr, h)"
    unfolding secant_steps_def by (intro for_steps_break[where k = k]) simp_all
  then show "secant_method func x0 x1 tol max_iter = Inr (Some x_curr, Some h)"
    by (simp add: secant_method_def)
next
  assume ndeg: "\<not> \<bar>func x_curr - func x_prev\<bar> < 1 / 10 ^ 12"
  define x_next where "x_next = x_curr - func x_curr * ((x_curr - x_prev) / (func x_curr - func x_prev))"
  define h' where "h' = h @ [\<lparr>row_Iter = int k + 1, row_Method = ''Secant'', row_x_curr = x_curr,
                            row_fx = func x_curr, row_Error = \<bar>x_next - x_curr\<bar>\<rparr>]"
  from assms(1) have kn: "k < nat max_iter" by (simp add: secant_steps_def)
  have body: "secant_body func tol (0 + int k) (x_prev, x_curr, h) =
      (if \<bar>x_next - x_curr\<bar> < tol then Inr (Break (x_curr, x_next, h'))
       else Inr (Continue (x_curr, x_next, h')))"
    using ndeg by (simp add: secant_body_unfold secant_next_def secant_row_def x_next_def h'_def)
  have "if \<bar>x_next - x_curr\<bar> < tol \<or> int k + 1 = max_iter
                then secant_method func x0 x1 tol max_iter = Inr (Some x_next, Some h')
                else Suc k < length (secant_steps func x0 x1 tol max_iter)
                   \<and> secant_steps func x0 x1 tol max_iter ! Suc k = (x_curr, x_next, h')"
  proof (cases "\<bar>x_next - x_curr\<bar> < tol")
    case True
    with body have "secant_body func tol (0 + int k) (x_prev, x_curr, h) = Inr (Break (x_curr, x_next, h'))"
      by simp
    with assms have "for_range (secant_body func tol) 0 (nat max_iter) (x0, x1, []) = Inr (x_curr, x_next, h')"
      unfolding secant_steps_def by (intro for_steps_break[where k = k]) simp_all
    with True show ?thesis by (simp add: secant_method_def)
  next
    case False
    with body have "secant_body func tol (0 + int k) (x_prev, x_curr, h) = Inr (Continue (x_curr, x_next, h'))"
      by simp
    with assms have c: "if Suc k = nat max_iter
         then for_range (secant_body func tol) 0 (nat max_iter) (x0, x1, []) = Inr (x_curr, x_next, h')
         else Suc k < length (secant_steps func x0 x1 tol max_iter)
           \<and> secant_steps func x0 x1 tol max_iter ! Suc k = (x_curr, x_next, h')"
      unfolding secant_steps_def by (intro for_steps_continue[where k = k]) simp_all
    have "Suc k = nat max_iter \<longleftrightarrow> int k + 1 = max_iter" using kn by auto
    with c False show ?thesis by (simp add: secant_method_def split: if_splits)
  qed
  then show "let x_next = x_curr - func x_curr * ((x_curr - x_prev) / (func x_curr - func x_prev));
                 h' = h @ [\<lparr>row_Iter = int k + 1, row_Method = ''Secant'', row_x_curr = x_curr,
                            row_fx = func x_curr, row_Error = \<bar>x_next - x_curr\<bar>\<rparr>]
             in if \<bar>x_next - x_curr\<bar> < tol \<or> int k + 1 = max_iter
                then secant_method func x0 x1 tol max_iter = Inr (Some x_next, Some h')
                else Suc k < length (secant_steps func x0 x1 tol max_iter)
                   \<and> secant_steps func x0 x1 tol max_iter ! Suc k = (x_curr, x_next, h')"
    unfolding Let_def x_next_def h'_def .
qed

lemma secant_steps_example:
  "secant_steps (\<lambda>x. x * x - 2) 1 2 (1 / 10) 5 =
     [(1, 2, []),
      (2, 4 / 3, [\<lparr>row_Iter = 1, row_Method = ''Secant'', row_x_curr = 2, row_fx = 2,
                    row_Error = 2 / 3\<rparr>])]"
  by (simp add: secant_steps_def secant_body_def py_div_def eval_nat_numeral)

lemma secant_steps_flat: "secant_steps (\<lambda>x. 1) 0 1 (1 / 10) 50 = [(0, 1, [])]"
  by (simp add: secant_steps_def secant_body_def py_div_def eval_nat_numeral)

theorem secant_step_witness:
  "0 < length (secant_steps (\<lambda>x. 1) 0 1 (1 / 10) 50)
   \<and> secant_steps (\<lambda>x. 1) 0 1 (1 / 10) 50 ! 0 = (0, 1, [])
   \<and> \<bar>(\<lambda>x::real. 1) 1 - (\<lambda>x::real. 1) 0 :: real\<bar> < 1 / 10 ^ 12
   \<and> secant_method (\<lambda>x. 1) 0 1 (1 / 10) 50 = Inr (Some 1, Some [])
   \<and> 0 < length (secant_steps (\<lambda>x. x * x - 2) 1 2 (1 / 10) 5)
   \<and> secant_steps (\<lambda>x. x * x - 2) 1 2 (1 / 10) 5 ! 0 = (1, 2, [])
   \<and> \<not> \<bar>(\<lambda>x::real. x * x - 2) 2 - (\<lambda>x::real. x * x - 2) 1\<bar> < 1 / 10 ^ 12
   \<and> secant_steps (\<lambda>x. x * x - 2) 1 2 (1 / 10) 5 ! Suc 0 =
       (2, 4 / 3, [\<lparr>row_Iter = 1, row_Method = ''Secant'', row_x_curr = 2, row_fx = 2,
                    row_Error = 2 / 3\<rparr>])
   \<and> 1 < length (secant_steps (\<lambda>x. x * x - 2) 1 2 (1 / 10) 5)
   \<and> secant_method (\<lambda>x. x * x - 2) 1 2 (1 / 10) 5 =
       Inr (Some (7 / 5),
         Some [\<lparr>row_Iter = 1, row_Method = ''Secant'', row_x_curr = 2, row_fx = 2, row_Error = 2 / 3\<rparr>,
               \<lparr>row_Iter = 2, row_Method = ''Secant'', row_x_curr = 4 / 3, row_fx = - (2 / 9),
                 row_Error = 1 / 15\<rparr>])"
  using secant_step[where func = "\<lambda>x. 1" and ?x0.0 = 0 and ?x1.0 = 1 and tol = "1 / 10"
      and max_iter = 50 and k = 0 and x_prev = 0 and x_curr = 1 and h = "[]"]
    secant_step[where func = "\<lambda>x. x * x - 2" and ?x0.0 = 1 and ?x1.0 = 2 and tol = "1 / 10"
      and max_iter = 5 and k = 0 and x_prev = 1 and x_curr = 2 and h = "[]"]
    secant_step[where func = "\<lambda>x. x * x - 2" and ?x0.0 = 1 and ?x1.0 = 2 and tol = "1 / 10"
      and max_iter = 5 and k = 1 and x_prev = 2 and x_curr = "4 / 3"
      and h = "[\<lparr>row_Iter = 1, row_Method = ''Secant'', row_x_curr = 2, row_fx = 2,
                    row_Error = 2 / 3\<rparr>]"]
  by (simp add: secant_steps_example secant_steps_flat)

section \<open>The rows of false position\<close>

lemma fp_loop_chain:
  assumes "for_range (fp_body func tol) i n (a, b, c_old, c, h) = Inr (a', b', c_old', c', h')"
  shows "\<exists>rs. h' = h @ rs \<and> fp_chain func tol i a b c_old rs
     \<and> (rs = [] \<longrightarrow> n = 0)
     \<and> (rs \<noteq> [] \<longrightarrow> c' = Some (fp_root (last rs))
           \<and> (if fp_Error (last rs) < tol then (a', b') = (fp_a (last rs), fp_b (last rs))
              else (a', b') = fp_update func (last rs)))"
  using assms
proof (induction n arbitrary: i a b c_old c h)
  case 0
  then show ?case by simp
next
  case (Suc n)
  define r where "r = fp_mk_row func i a b c_old"
  from Suc.prems obtain w where w: "fp_body func tol i (a, b, c_old, c, h) = Inr w"
    by (auto split: sum.splits)
  from fp_body_result[OF w] have ne: "func b \<noteq> func a"
    and weq: "w = (if \<bar>fp_c func a b - c_old\<bar> < tol
        then Break (a, b, c_old, Some (fp_c func a b), h @ [r])
      else if func a * func (fp_c func a b) < 0
        then Continue (a, fp_c func a b, fp_c func a b, Some (fp_c func a b), h @ [r])
        else Continue (fp_c func a b, b, fp_c func a b, Some (fp_c func a b), h @ [r]))"
    by (simp_all add: r_def)
  have rsel: "fp_root r = fp_c func a b" "fp_Error r = \<bar>fp_c func a b - c_old\<bar>"
    "fp_a r = a" "fp_b r = b"
    by (simp_all add: r_def fp_mk_row_sel)
  show ?case
  proof (cases "\<bar>fp_c func a b - c_old\<bar> < tol")
    case True
    with w weq Suc.prems have "a' = a" "b' = b" "c' = Some (fp_c func a b)" "h' = h @ [r]"
      by auto
    with True ne rsel show ?thesis
      by (intro exI[of _ "[r]"]) (simp add: r_def)
  next
    case False
    define a1 where "a1 = fst (fp_update func r)"
    define b1 where "b1 = snd (fp_update func r)"
    from False weq have "w = Continue (a1, b1, fp_c func a b, Some (fp_c func a b), h @ [r])"
      by (simp add: a1_def b1_def fp_update_def rsel)
    with w Suc.prems have run:
      "for_range (fp_body func tol) (i + 1) n (a1, b1, fp_c func a b, Some (fp_c func a b), h @ [r])
         = Inr (a', b', c_old', c', h')" by simp
    from Suc.IH[OF run] obtain rs where rs: "h' = (h @ [r]) @ rs"
      "fp_chain func tol (i + 1) a1 b1 (fp_c func a b) rs"
      "rs = [] \<longrightarrow> n = 0"
      "rs \<noteq> [] \<longrightarrow> c' = Some (fp_root (last rs))
           \<and> (if fp_Error (last rs) < tol then (a', b') = (fp_a (last rs), fp_b (last rs))
              else (a', b') = fp_update func (last rs))"
      by blast
    show ?thesis
    proof (cases "rs = []")
      case True
      with rs(3) run have "a' = a1" "b' = b1" "c' = Some (fp_c func a b)" by auto
      with True rs(1) False ne rsel show ?thesis
        by (intro exI[of _ "[r]"]) (simp add: r_def[symmetric] a1_def b1_def)
    next
      case nonempty: False
      with rs False ne rsel show ?thesis
        by (intro exI[of _ "r # rs"]) (simp add: r_def[symmetric] a1_def b1_def)
    qed
  qed
qed

lemma fp_chain_nth:
  assumes "fp_chain func tol i a b c_old rs" and "k < length rs"
  shows "fp_Iter (rs ! k) = i + int k + 1
    \<and> func (fp_b (rs ! k)) \<noteq> func (fp_a (rs ! k))
    \<and> fp_root (rs ! k) = fp_b (rs ! k) - func (fp_b (rs ! k))
         * ((fp_b (rs ! k) - fp_a (rs ! k)) / (func (fp_b (rs ! k)) - func (fp_a (rs ! k))))
    \<and> fp_fx (rs ! k) = func (fp_root (rs ! k))
    \<and> fp_Error (rs ! k) = \<bar>fp_root (rs ! k) - (if k = 0 then c_old else fp_root (rs ! (k - 1)))\<bar>
    \<and> (fp_a (rs ! k), fp_b (rs ! k)) = (if k = 0 then (a, b) else fp_update func (rs ! (k - 1)))
    \<and> (Suc k < length rs \<longrightarrow> \<not> fp_Error (rs ! k) < tol)"
  using assms
proof (induction rs arbitrary: i a b c_old k)
  case Nil
  then show ?case by simp
next
  case (Cons r rs)
  show ?case
  proof (cases k)
    case 0
    with Cons.prems show ?thesis
      by (auto simp: fp_mk_row_sel fp_c_def)
  next
    case (Suc k')
    with Cons.prems have ne: "rs \<noteq> []" and k': "k' < length rs" by auto
    with Cons.prems have
      "fp_chain func tol (i + 1) (fst (fp_update func r)) (snd (fp_update func r)) (fp_root r) rs"
      by auto
    from Cons.IH[OF this k'] Suc show ?thesis
      by (cases k') auto
  qed
qed

text \<open>
  C8.  With a valid initial bracket and \<open>max_iter \<ge> 1\<close>, \<open>false_position\<close> returns the root
  of its last row and a non-empty trace.  Row \<open>k\<close> (from 0) has \<open>Iter = k + 1\<close>; its \<open>root\<close> is
  \<open>c = b - f(b) * ((b - a) / (f(b) - f(a)))\<close> for the \<open>a\<close>, \<open>b\<close> of the row, with a non-zero
  denominator, and its \<open>f(x)\<close> is \<open>f(c)\<close>.  Its \<open>Error\<close> is \<open>\<bar>c - c_old\<bar>\<close>, where \<open>c_old\<close> is the
  initial \<open>a\<close> for the first row and the root of the row before for the others.  Its
  bracket is the initial one for the first row, and for the others the bracket of the row
  before, updated: \<open>b \<leftarrow> c\<close> if \<open>f(a) * f(c) < 0\<close>, else \<open>a \<leftarrow> c\<close>.  Every row but the last has
  \<open>Error \<ge> tol\<close>.  The test comes after the row is written and before the update: when
  the last row has \<open>Error < tol\<close>, the locals \<open>a\<close>, \<open>b\<close> on exit are those of the last row;
  otherwise they are the last row's bracket, updated.
\<close>

theorem false_position_rows:
  assumes "func a * func b < 0" and "1 \<le> max_iter"
  shows "\<exists>a' b' c_old c h.
      for_range (fp_body func tol) 0 (nat max_iter) (a, b, a, None, []) = Inr (a', b', c_old, Some c, h)
    \<and> false_position func a b tol max_iter = Inr (Some c, Some h)
    \<and> h \<noteq> [] \<and> c = fp_root (last h)
    \<and> (\<forall>k < length h.
          fp_Iter (h ! k) = int k + 1
        \<and> func (fp_b (h ! k)) \<noteq> func (fp_a (h ! k))
        \<and> fp_root (h ! k) = fp_b (h ! k) - func (fp_b (h ! k))
             * ((fp_b (h ! k) - fp_a (h ! k)) / (func (fp_b (h ! k)) - func (fp_a (h ! k))))
        \<and> fp_fx (h ! k) = func (fp_root (h ! k))
        \<and> fp_Error (h ! k) = \<bar>fp_root (h ! k) - (if k = 0 then a else fp_root (h ! (k - 1)))\<bar>
        \<and> (fp_a (h ! k), fp_b (h ! k)) =
            (if k = 0 then (a, b)
             else if func (fp_a (h ! (k - 1))) * func (fp_root (h ! (k - 1))) < 0
               then (fp_a (h ! (k - 1)), fp_root (h ! (k - 1)))
               else (fp_root (h ! (k - 1)), fp_b (h ! (k - 1))))
        \<and> (Suc k < length h \<longrightarrow> \<not> fp_Error (h ! k) < tol))
    \<and> (a', b') =
        (if fp_Error (last h) < tol then (fp_a (last h), fp_b (last h))
         else if func (fp_a (last h)) * func (fp_root (last h)) < 0
           then (fp_a (last h), fp_root (last h))
           else (fp_root (last h), fp_b (last h)))"
proof -
  from false_position_exec_returns[where func = func and a = a and b = b and tol = tol, OF assms]
  obtain a' b' c_old c h where
    run: "for_range (fp_body func tol) 0 (nat max_iter) (a, b, a, None, []) = Inr (a', b', c_old, Some c, h)"
    and ex: "false_position_exec func a b tol max_iter = Inr (h, (Some c, Some h))"
    by blast
  from ex have ret: "false_position func a b tol max_iter = Inr (Some c, Some h)"
    by (simp add: false_position_def)
  from fp_loop_chain[OF run] have chain: "fp_chain func tol 0 a b a h"
    and empty: "h = [] \<longrightarrow> nat max_iter = 0"
    and final: "h \<noteq> [] \<longrightarrow> Some c = Some (fp_root (last h))
           \<and> (if fp_Error (last h) < tol then (a', b') = (fp_a (last h), fp_b (last h))
              else (a', b') = fp_update func (last h))"
    by simp_all
  from empty assms(2) have ne: "h \<noteq> []" by auto
  with final have c: "c = fp_root (last h)"
    and ab: "(a', b') =
        (if fp_Error (last h) < tol then (fp_a (last h), fp_b (last h))
         else if func (fp_a (last h)) * func (fp_root (last h)) < 0
           then (fp_a (last h), fp_root (last h))
           else (fp_root (last h), fp_b (last h)))"
    by (simp_all add: fp_update_def split: if_splits)
  have rows: "\<forall>k < length h.
          fp_Iter (h ! k) = int k + 1
        \<and> func (fp_b (h ! k)) \<noteq> func (fp_a (h ! k))
        \<and> fp_root (h ! k) = fp_b (h ! k) - func (fp_b (h ! k))
             * ((fp_b (h ! k) - fp_a (h ! k)) / (func (fp_b (h ! k)) - func (fp_a (h ! k))))
        \<and> fp_fx (h ! k) = func (fp_root (h ! k))
        \<and> fp_Error (h ! k) = \<bar>fp_root (h ! k) - (if k = 0 then a else fp_root (h ! (k - 1)))\<bar>
        \<and> (fp_a (h ! k), fp_b (h ! k)) =
            (if k = 0 then (a, b)
             else if func (fp_a (h ! (k - 1))) * func (fp_root (h ! (k - 1))) < 0
               then (fp_a (h ! (k - 1)), fp_root (h ! (k - 1)))
               else (fp_root (h ! (k - 1)), fp_b (h ! (k - 1))))
        \<and> (Suc k < length h \<longrightarrow> \<not> fp_Error (h ! k) < tol)"
  proof (intro allI impI)
    fix k assume "k < length h"
    from fp_chain_nth[OF chain this, unfolded fp_update_def add_0]
    show "fp_Iter (h ! k) = int k + 1
        \<and> func (fp_b (h ! k)) \<noteq> func (fp_a (h ! k))
        \<and> fp_root (h ! k) = fp_b (h ! k) - func (fp_b (h ! k))
             * ((fp_b (h ! k) - fp_a (h ! k)) / (func (fp_b (h ! k)) - func (fp_a (h ! k))))
        \<and> fp_fx (h ! k) = func (fp_root (h ! k))
        \<and> fp_Error (h ! k) = \<bar>fp_root (h ! k) - (if k = 0 then a else fp_root (h ! (k - 1)))\<bar>
        \<and> (fp_a (h ! k), fp_b (h ! k)) =
            (if k = 0 then (a, b)
             else if func (fp_a (h ! (k - 1))) * func (fp_root (h ! (k - 1))) < 0
               then (fp_a (h ! (k - 1)), fp_root (h ! (k - 1)))
               else (fp_root (h ! (k - 1)), fp_b (h ! (k - 1))))
        \<and> (Suc k < length h \<longrightarrow> \<not> fp_Error (h ! k) < tol)"
      .
  qed
  from run ret ne c rows ab show ?thesis by blast
qed

lemma fp_rows_example:
  "for_range (fp_body (\<lambda>x. x * x - 2) (1 / 10)) 0 (nat 3) (1, 2, 1, None, []) =
       Inr (4 / 3, 2, 4 / 3, Some (7 / 5),
         [\<lparr>fp_Iter = 1, fp_Method = ''FalsePos'', fp_a = 1, fp_b = 2, fp_root = 4 / 3,
            fp_fx = - (2 / 9), fp_Error = 1 / 3\<rparr>,
          \<lparr>fp_Iter = 2, fp_Method = ''FalsePos'', fp_a = 4 / 3, fp_b = 2, fp_root = 7 / 5,
            fp_fx = - (1 / 25), fp_Error = 1 / 15\<rparr>])"
  by (simp add: fp_body_def py_div_def Let_def eval_nat_numeral)

theorem false_position_rows_witness:
  "(\<lambda>x::real. x * x - 2) 1 * (\<lambda>x::real. x * x - 2) 2 < 0 \<and> (1::int) \<le> 3
   \<and> for_range (fp_body (\<lambda>x. x * x - 2) (1 / 10)) 0 (nat 3) (1, 2, 1, None, []) =
       Inr (4 / 3, 2, 4 / 3, Some (7 / 5),
         [\<lparr>fp_Iter = 1, fp_Method = ''FalsePos'', fp_a = 1, fp_b = 2, fp_root = 4 / 3,
            fp_fx = - (2 / 9), fp_Error = 1 / 3\<rparr>,
          \<lparr>fp_Iter = 2, fp_Method = ''FalsePos'', fp_a = 4 / 3, fp_b = 2, fp_root = 7 / 5,
            fp_fx = - (1 / 25), fp_Error = 1 / 15\<rparr>])
   \<and> false_position (\<lambda>x. x * x - 2) 1 2 (1 / 10) 3 =
       Inr (Some (7 / 5),
         Some [\<lparr>fp_Iter = 1, fp_Method = ''FalsePos'', fp_a = 1, fp_b = 2, fp_root = 4 / 3,
                 fp_fx = - (2 / 9), fp_Error = 1 / 3\<rparr>,
               \<lparr>fp_Iter = 2, fp_Method = ''FalsePos'', fp_a = 4 / 3, fp_b = 2, fp_root = 7 / 5,
                 fp_fx = - (1 / 25), fp_Error = 1 / 15\<rparr>])"
proof -
  have v: "(\<lambda>x::real. x * x - 2) 1 * (\<lambda>x::real. x * x - 2) 2 < 0" by simp
  have m: "(1::int) \<le> 3" by simp
  from false_position_rows[where func = "\<lambda>x. x * x - 2" and a = 1 and b = 2 and tol = "1 / 10"
      and max_iter = 3, OF v m] obtain a' b' c_old c h where
    run: "for_range (fp_body (\<lambda>x. x * x - 2) (1 / 10)) 0 (nat 3) (1, 2, 1, None, [])
            = Inr (a', b', c_old, Some c, h)"
    and ret: "false_position (\<lambda>x. x * x - 2) 1 2 (1 / 10) 3 = Inr (Some c, Some h)"
    by blast
  from run have "c = 7 / 5"
    and "h = [\<lparr>fp_Iter = 1, fp_Method = ''FalsePos'', fp_a = 1, fp_b = 2, fp_root = 4 / 3,
            fp_fx = - (2 / 9), fp_Error = 1 / 3\<rparr>,
          \<lparr>fp_Iter = 2, fp_Method = ''FalsePos'', fp_a = 4 / 3, fp_b = 2, fp_root = 7 / 5,
            fp_fx = - (1 / 25), fp_Error = 1 / 15\<rparr>]"
    unfolding fp_rows_example by simp_all
  with ret v m fp_rows_example show ?thesis by simp
qed

section \<open>False position on the first test function\<close>

lemma func_A_root:
  "\<exists>r. 75487765 / 10 ^ 8 < r \<and> r < 754878 / 10 ^ 6 \<and> func_A r = 0"
proof -
  define lo :: real where "lo = 75487765 / 10 ^ 8"
  define hi :: real where "hi = 754878 / 10 ^ 6"
  have lo: "func_A lo < 0" by (simp add: lo_def func_A_def power_divide)
  have hi: "0 < func_A hi" by (simp add: hi_def func_A_def power_divide)
  have le: "lo \<le> hi" by (simp add: lo_def hi_def)
  have "continuous_on {lo .. hi} func_A"
    unfolding func_A_def by (intro continuous_intros)
  with lo hi le have "\<exists>r. lo \<le> r \<and> r \<le> hi \<and> func_A r = 0"
    by (intro IVT') simp_all
  then obtain r where r: "lo \<le> r" "r \<le> hi" "func_A r = 0"
    by blast
  from r(3) lo have "r \<noteq> lo" by auto
  moreover from r(3) hi have "r \<noteq> hi" by auto
  ultimately have "lo < r \<and> r < hi \<and> func_A r = 0" using r by simp
  then show ?thesis unfolding lo_def hi_def by blast
qed

lemma func_A_root_ex: "\<exists>r. is_root_A r"
  using func_A_root by (simp add: is_root_A_def)

lemma is_root_A_bounds:
  assumes "is_root_A r"
  shows "0 < r" and "r \<le> 7549 / 10000" and "0 \<le> 1 - r" and "1 - r \<le> 24513 / 100000"
    and "r < 1"
  using assms by (simp_all add: is_root_A_def)

lemma chord_E_ge: "0 \<le> a \<Longrightarrow> 2 \<le> chord_E a"
  by (simp add: chord_E_def)

lemma chord_E_mono: "0 \<le> a \<Longrightarrow> a \<le> b \<Longrightarrow> chord_E a \<le> chord_E b"
  unfolding chord_E_def by (intro add_mono power_mono order_refl) 

lemma func_A_chord: "func_A 1 - func_A a = (1 - a) * chord_E a"
  by (simp add: func_A_def chord_E_def eval_nat_numeral algebra_simps)

lemma func_A_mono: "0 \<le> a \<Longrightarrow> a \<le> b \<Longrightarrow> func_A a \<le> func_A b"
  unfolding func_A_def by (intro add_mono diff_mono power_mono order_refl)

lemma fp_c_func_A:
  assumes "0 \<le> a" and "a < 1"
  shows "fp_c func_A a 1 = 1 - 1 / chord_E a"
proof -
  have "func_A 1 = 1" by (simp add: func_A_def)
  moreover from assms chord_E_ge[of a] have "(1 - a) * chord_E a \<noteq> 0" by simp
  moreover from assms have "(1 - a) / ((1 - a) * chord_E a) = 1 / chord_E a" by simp
  ultimately show ?thesis using func_A_chord[of a] by (simp add: fp_c_def)
qed

lemma chord_E_root:
  assumes "is_root_A r"
  shows "(1 - r) * chord_E r = 1"
proof -
  from assms have "func_A r = 0" by (simp add: is_root_A_def)
  moreover have "func_A 1 = 1" by (simp add: func_A_def)
  ultimately show ?thesis using func_A_chord[of r] by simp
qed

lemma chord_E_diff:
  "chord_E r - chord_E a =
     (r - a) * ((1 + r + r ^ 2 + r ^ 3) + (1 + r + r ^ 2) * a + (1 + r) * a ^ 2 + a ^ 3)"
  by (simp add: chord_E_def eval_nat_numeral algebra_simps)

text \<open>
  The zero of the chord moves towards the root \<open>r\<close> from the left, and the distance to \<open>r\<close>
  shrinks by the factor \<open>39 / 100\<close> at least in every step.
\<close>

lemma contraction_poly:
  assumes "0 \<le> a" and "a \<le> 7549 / 10000"
  shows "(24513 / 100000) * (2755 / 1000 + (2325 / 1000) * a + (1755 / 1000) * a ^ 2 + a ^ 3)
           \<le> (39 / 100) * chord_E a"
proof -
  have pos: "0 \<le> a ^ 3" "0 \<le> a ^ 4" using assms(1) by simp_all
  consider "a \<le> 1 / 2" | "1 / 2 \<le> a" "a \<le> 13 / 20" | "13 / 20 \<le> a" by linarith
  then show ?thesis
  proof cases
    case 1
    with assms(1) have "a ^ 2 \<le> (1 / 2) ^ 2" by (intro power_mono)
    then have "a ^ 2 \<le> 1 / 4" by (simp add: power_divide)
    with 1 pos show ?thesis unfolding chord_E_def distrib_left by linarith
  next
    case 2
    with assms(1) have "a ^ 2 \<le> (13 / 20) ^ 2" by (intro power_mono)
    then have s: "a ^ 2 \<le> 169 / 400" by (simp add: power_divide)
    from 2 have "(1 / 2) ^ 3 \<le> a ^ 3" "(1 / 2) ^ 4 \<le> a ^ 4" by (intro power_mono; simp)+
    then have "1 / 8 \<le> a ^ 3" "1 / 16 \<le> a ^ 4" by (simp_all add: power_divide)
    with 2 s show ?thesis unfolding chord_E_def distrib_left by linarith
  next
    case 3
    from assms have "a ^ 2 \<le> (7549 / 10000) ^ 2" by (intro power_mono)
    then have s: "a ^ 2 \<le> 56987401 / 100000000" by (simp add: power_divide)
    from 3 have "(13 / 20) ^ 3 \<le> a ^ 3" "(13 / 20) ^ 4 \<le> a ^ 4" by (intro power_mono; simp)+
    then have "2197 / 8000 \<le> a ^ 3" "28561 / 160000 \<le> a ^ 4" by (simp_all add: power_divide)
    with 3 assms s show ?thesis unfolding chord_E_def distrib_left by linarith
  qed
qed

lemma chord_slope_bound:
  assumes "is_root_A r" and "0 \<le> a"
  shows "(1 + r + r ^ 2 + r ^ 3) + (1 + r + r ^ 2) * a + (1 + r) * a ^ 2 + a ^ 3
           \<le> 2755 / 1000 + (2325 / 1000) * a + (1755 / 1000) * a ^ 2 + a ^ 3"
proof -
  note r = is_root_A_bounds[OF assms(1)]
  from r have "r ^ 2 \<le> (7549 / 10000) ^ 2" "r ^ 3 \<le> (7549 / 10000) ^ 3"
    by (intro power_mono; simp)+
  then have p: "r ^ 2 \<le> 56987401 / 100000000" "r ^ 3 \<le> 430197890149 / 1000000000000"
    by (simp_all add: power_divide)
  from p r have "1 + r + r ^ 2 + r ^ 3 \<le> 2755 / 1000" by linarith
  moreover from p r have "(1 + r + r ^ 2) * a \<le> (2325 / 1000) * a"
    by (intro mult_right_mono assms(2)) linarith
  moreover from r have "(1 + r) * a ^ 2 \<le> (1755 / 1000) * a ^ 2"
    by (intro mult_right_mono) simp_all
  ultimately show ?thesis by linarith
qed

lemma chord_step:
  assumes root: "is_root_A r" and a0: "0 \<le> a" and ar: "a \<le> r"
  shows "a \<le> 1 - 1 / chord_E a"
    and "1 - 1 / chord_E a \<le> r"
    and "r - (1 - 1 / chord_E a) \<le> (39 / 100) * (r - a)"
proof -
  note r = is_root_A_bounds[OF root]
  from a0 have Ea: "0 < chord_E a" using chord_E_ge[of a] by simp
  from r have Er: "0 < chord_E r" using chord_E_ge[of r] by simp
  from chord_E_root[OF root] Er have inv_r: "1 / chord_E r = 1 - r"
    by (simp add: field_simps)
  have "func_A a \<le> func_A r" using a0 ar by (rule func_A_mono)
  with root have "func_A a \<le> 0" by (simp add: is_root_A_def)
  moreover have "func_A 1 = 1" by (simp add: func_A_def)
  ultimately have "1 \<le> (1 - a) * chord_E a" using func_A_chord[of a] by simp
  with Ea have "1 / chord_E a \<le> 1 - a" by (simp add: field_simps)
  then show "a \<le> 1 - 1 / chord_E a" by simp
  from chord_E_mono[OF a0 ar] Ea have "1 / chord_E r \<le> 1 / chord_E a"
    by (intro divide_left_mono) simp_all
  with inv_r show "1 - 1 / chord_E a \<le> r" by simp
  define G where "G = (1 + r + r ^ 2 + r ^ 3) + (1 + r + r ^ 2) * a + (1 + r) * a ^ 2 + a ^ 3"
  define B where "B = 2755 / 1000 + (2325 / 1000) * a + (1755 / 1000) * a ^ 2 + a ^ 3"
  have GB: "G \<le> B" unfolding G_def B_def using root a0 by (rule chord_slope_bound)
  have G0: "0 \<le> G" unfolding G_def using a0 r by simp
  from ar r have "a \<le> 7549 / 10000" by simp
  with a0 have poly: "(24513 / 100000) * B \<le> (39 / 100) * chord_E a"
    unfolding B_def by (rule contraction_poly)
  have "(1 - r) * G \<le> (24513 / 100000) * B"
    using r GB G0 by (intro mult_mono) simp_all
  with poly have "(1 - r) * G \<le> (39 / 100) * chord_E a" by simp
  with ar have "(r - a) * ((1 - r) * G) \<le> (r - a) * ((39 / 100) * chord_E a)"
    by (intro mult_left_mono) simp_all
  moreover have "(r - (1 - 1 / chord_E a)) * chord_E a = (r - a) * ((1 - r) * G)"
  proof -
    have "(r - (1 - 1 / chord_E a)) * chord_E a = 1 - (1 - r) * chord_E a"
      using Ea by (simp add: field_simps)
    also have "\<dots> = (1 - r) * (chord_E r - chord_E a)"
      using chord_E_root[OF root] by (simp add: algebra_simps)
    also have "\<dots> = (r - a) * ((1 - r) * G)"
      unfolding G_def chord_E_diff by simp
    finally show ?thesis .
  qed
  ultimately have "(r - (1 - 1 / chord_E a)) * chord_E a \<le> ((39 / 100) * (r - a)) * chord_E a"
    by (simp add: mult_ac)
  from this Ea show "r - (1 - 1 / chord_E a) \<le> (39 / 100) * (r - a)"
    by (rule mult_right_le_imp_le)
qed

lemma fp_body_func_A:
  assumes root: "is_root_A r" and a0: "0 \<le> a" and ar: "a \<le> r"
  shows "fp_body func_A tol i (a, 1, a, cp, h) =
     (if 1 - 1 / chord_E a - a < tol
      then Inr (Break (a, 1, a, Some (1 - 1 / chord_E a), h @ [fp_mk_row func_A i a 1 a]))
      else Inr (Continue (1 - 1 / chord_E a, 1, 1 - 1 / chord_E a, Some (1 - 1 / chord_E a),
             h @ [fp_mk_row func_A i a 1 a])))"
    and "fp_root (fp_mk_row func_A i a 1 a) = 1 - 1 / chord_E a"
    and "fp_Error (fp_mk_row func_A i a 1 a) = 1 - 1 / chord_E a - a"
proof -
  note r = is_root_A_bounds[OF root]
  note st = chord_step[OF root a0 ar]
  from ar r have a1: "a < 1" by simp
  have c: "fp_c func_A a 1 = 1 - 1 / chord_E a" using a0 a1 by (rule fp_c_func_A)
  from a0 a1 chord_E_ge[of a] have "0 < (1 - a) * chord_E a" by simp
  with func_A_chord[of a] have ne: "func_A 1 \<noteq> func_A a" by simp
  from st(1) have err: "\<bar>1 - 1 / chord_E a - a\<bar> = 1 - 1 / chord_E a - a" by simp
  have "func_A a \<le> func_A r" using a0 ar by (rule func_A_mono)
  with root have fa: "func_A a \<le> 0" by (simp add: is_root_A_def)
  from a0 st(1) have "0 \<le> 1 - 1 / chord_E a" by simp
  from this st(2) have "func_A (1 - 1 / chord_E a) \<le> func_A r" by (rule func_A_mono)
  with root have fc: "func_A (1 - 1 / chord_E a) \<le> 0" by (simp add: is_root_A_def)
  from fa fc have "0 \<le> func_A a * func_A (1 - 1 / chord_E a)" by (rule mult_nonpos_nonpos)
  then have nl: "\<not> func_A a * func_A (1 - 1 / chord_E a) < 0" by simp
  from ne c err nl show "fp_body func_A tol i (a, 1, a, cp, h) =
     (if 1 - 1 / chord_E a - a < tol
      then Inr (Break (a, 1, a, Some (1 - 1 / chord_E a), h @ [fp_mk_row func_A i a 1 a]))
      else Inr (Continue (1 - 1 / chord_E a, 1, 1 - 1 / chord_E a, Some (1 - 1 / chord_E a),
             h @ [fp_mk_row func_A i a 1 a])))"
    by (simp add: fp_body_unfold)
  from c show "fp_root (fp_mk_row func_A i a 1 a) = 1 - 1 / chord_E a"
    by (simp add: fp_mk_row_sel)
  from c err show "fp_Error (fp_mk_row func_A i a 1 a) = 1 - 1 / chord_E a - a"
    by (simp add: fp_mk_row_sel)
qed

lemma fp_loop_func_A:
  assumes root: "is_root_A r" and a0: "0 \<le> a" and ar: "a \<le> r"
    and small: "(r - a) * (39 / 100) ^ n < tol"
  shows "\<exists>a' c' h'.
      for_range (fp_body func_A tol) i (Suc (n + m)) (a, 1, a, cp, h) = Inr (a', 1, a', Some c', h')
    \<and> h' \<noteq> [] \<and> c' = fp_root (last h') \<and> fp_Error (last h') < tol
    \<and> c' \<le> r \<and> (61 / 100) * (r - c') < (39 / 100) * tol"
  using a0 ar small
proof (induction n arbitrary: a i cp h)
  case 0
  note st = chord_step[OF root "0.prems"(1,2)]
  note body = fp_body_func_A[OF root "0.prems"(1,2)]
  define c where "c = 1 - 1 / chord_E a"
  from "0.prems"(3) have "r - a < tol" by simp
  with st(2) have conv: "c - a < tol" by (simp add: c_def)
  with body(1) have run: "for_range (fp_body func_A tol) i (Suc (0 + m)) (a, 1, a, cp, h)
      = Inr (a, 1, a, Some c, h @ [fp_mk_row func_A i a 1 a])"
    by (simp add: c_def)
  from st(3) conv have "(61 / 100) * (r - c) < (39 / 100) * tol" by (simp add: c_def)
  with run body(2,3) conv st(2) show ?case
    by (intro exI[of _ a] exI[of _ c] exI[of _ "h @ [fp_mk_row func_A i a 1 a]"])
       (simp add: c_def)
next
  case (Suc n)
  note st = chord_step[OF root Suc.prems(1,2)]
  note body = fp_body_func_A[OF root Suc.prems(1,2)]
  define c where "c = 1 - 1 / chord_E a"
  show ?case
  proof (cases "c - a < tol")
    case True
    with body(1) have run: "for_range (fp_body func_A tol) i (Suc (Suc n + m)) (a, 1, a, cp, h)
        = Inr (a, 1, a, Some c, h @ [fp_mk_row func_A i a 1 a])"
      by (simp add: c_def)
    from st(3) True have "(61 / 100) * (r - c) < (39 / 100) * tol" by (simp add: c_def)
    with run body(2,3) True st(2) show ?thesis
      by (intro exI[of _ a] exI[of _ c] exI[of _ "h @ [fp_mk_row func_A i a 1 a]"])
         (simp add: c_def)
  next
    case False
    with body(1) have run: "for_range (fp_body func_A tol) i (Suc (Suc n + m)) (a, 1, a, cp, h)
        = for_range (fp_body func_A tol) (i + 1) (Suc (n + m))
            (c, 1, c, Some c, h @ [fp_mk_row func_A i a 1 a])"
      by (simp add: c_def)
    from Suc.prems(1) st(1) have c0: "0 \<le> c" by (simp add: c_def)
    from st(2) have cr: "c \<le> r" by (simp add: c_def)
    from st(3) have "(r - c) * (39 / 100) ^ n \<le> ((39 / 100) * (r - a)) * (39 / 100) ^ n"
      by (intro mult_right_mono) (simp_all add: c_def)
    also have "\<dots> = (r - a) * (39 / 100) ^ Suc n" by simp
    also note Suc.prems(3)
    finally have "(r - c) * (39 / 100) ^ n < tol" .
    from Suc.IH[OF c0 cr this] run show ?thesis by simp
  qed
qed

text \<open>
  C9.  On \<open>f(x) = x^5 + x - 1\<close> and the bracket \<open>[0, 1]\<close>, with the default \<open>tol = 1e-6\<close> and
  \<open>max_iter = 50\<close>, \<open>false_position\<close> returns an estimate and a trace of at most 50 rows whose
  last row has \<open>Error < tol\<close>; the estimate is the root of that row and lies within \<open>1e-6\<close>
  of \<open>0.754878\<close>.
\<close>

theorem false_position_func_A_converges:
  "\<exists>c h. false_position func_A 0 1 (1 / 10 ^ 6) 50 = Inr (Some c, Some h)
     \<and> h \<noteq> [] \<and> length h \<le> 50 \<and> fp_Error (last h) < 1 / 10 ^ 6
     \<and> c = fp_root (last h) \<and> \<bar>c - 754878 / 10 ^ 6\<bar> < 1 / 10 ^ 6"
proof -
  from func_A_root_ex obtain r where root: "is_root_A r" by blast
  then have lo: "75487765 / 10 ^ 8 < r" and hi: "r < 754878 / 10 ^ 6"
    by (simp_all add: is_root_A_def)
  define K :: real where "K = (39 / 100) ^ 15"
  have K: "(754878 / 1000000) * K < 1 / 1000000" "0 \<le> K"
    by (simp_all add: K_def power_divide)
  from hi K(2) have "r * K \<le> (754878 / 1000000) * K"
    by (intro mult_right_mono) simp_all
  with K(1) have "r * K < 1 / 1000000" by linarith
  then have small: "(r - 0) * (39 / 100) ^ 15 < 1 / 10 ^ 6" by (simp add: K_def)
  from lo have r0: "(0::real) \<le> r" by simp
  from fp_loop_func_A[where i = 0 and m = 34 and cp = None and h = "[]", OF root order_refl r0 small]
  obtain a' c h where
    run: "for_range (fp_body func_A (1 / 10 ^ 6)) 0 (Suc (15 + 34)) (0, 1, 0, None, [])
            = Inr (a', 1, a', Some c, h)"
    and h: "h \<noteq> []" "c = fp_root (last h)" "fp_Error (last h) < 1 / 10 ^ 6"
    and c: "c \<le> r" "(61 / 100) * (r - c) < (39 / 100) * (1 / 10 ^ 6)"
    by blast
  have fuel: "nat 50 = Suc (15 + 34)" by simp
  have "func_A 0 * func_A 1 < 0" by (simp add: func_A_def)
  with run have ret: "false_position func_A 0 1 (1 / 10 ^ 6) 50 = Inr (Some c, Some h)"
    unfolding false_position_def false_position_exec_def fuel by (simp add: not_le[symmetric])
  from fp_loop_length[OF run] have len: "length h \<le> 50" by simp
  from c lo hi have "\<bar>c - 754878 / 10 ^ 6\<bar> < 1 / 10 ^ 6" by simp
  with ret h len show ?thesis by blast
qed

section \<open>The no-result sentinel\<close>




end
